theory Spec2Isabelle
  imports Main
begin

section \<open>The element type and the raw buffer\<close>

text \<open>
  \<^verbatim>\<open>SimpleVector<Type>\<close> is a class template. What the container needs from
  \<^verbatim>\<open>Type\<close> is collected in one record that every operation takes as its first
  argument:
  \<^item> \<open>dflt\<close>: the value of the expression \<^verbatim>\<open>Type()\<close>;
  \<^item> \<open>fresh\<close>: what a slot holds right after \<^verbatim>\<open>ArrayPtr<Type>(n)\<close> allocated it
    (the header \<^verbatim>\<open>array_ptr.h\<close> is not part of the sources; nothing proved below
    depends on this value);
  \<^item> \<open>moved\<close>: the state an object is left in after it was read through a
    \<^verbatim>\<open>std::move_iterator\<close> (the identity for a trivially copyable type).

  \<^verbatim>\<open>size_t\<close> is modelled as \<open>nat\<close>. The products and increments of the source
  (\<^verbatim>\<open>capacity_ * 2\<close>, \<^verbatim>\<open>++size_\<close>) stay below \<open>2^64\<close> on every vector that owns
  its buffer, since a buffer of \<open>2^63\<close> slots cannot be allocated; the one
  decrement that can wrap (\<^verbatim>\<open>--size_\<close> in \<^verbatim>\<open>PopBack\<close> at size 0) is written out.
  Allocation is assumed to succeed.

  Names of the source that end in an underscore (\<^verbatim>\<open>items_\<close>, \<^verbatim>\<open>size_\<close>,
  \<^verbatim>\<open>capacity_\<close>) are written \<open>items\<close>, \<open>size_f\<close>, \<open>capacity_f\<close>.
\<close>

record 'a element_type =
  dflt :: 'a
  fresh :: 'a
  moved :: "'a \<Rightarrow> 'a"

text \<open>
  The failures of the source as values: the exception thrown by \<^verbatim>\<open>At\<close>, a failed
  \<^verbatim>\<open>assert\<close>, undefined behaviour (an access outside the allocated buffer or
  through a reference to a released buffer, or an iterator range whose first
  position lies behind its last), and a member function whose body is ill-formed
  once the template is instantiated, so that no program calling it compiles.
\<close>

datatype error = OutOfRange | AssertionFailed | UndefinedBehaviour | IllFormed

definition SIZE_MAX :: nat where
  "SIZE_MAX = 2 ^ 64 - 1"

text \<open>
  Modelled from the spec: \<^verbatim>\<open>array_ptr.h\<close> (class \<^verbatim>\<open>ArrayPtr\<close>) is missing from the
  sources. The spec's Buffer "allocates \<open>length\<close> default-initialized slots", gives
  raw access to them and exchanges blocks on \<^verbatim>\<open>swap\<close>. A buffer is the list of its
  slots; \<^verbatim>\<open>Get() + i\<close> is the index \<open>i\<close> into that list; the empty list is the
  null buffer.
\<close>

definition ArrayPtr_new :: "'a element_type \<Rightarrow> nat \<Rightarrow> 'a list" where
  "ArrayPtr_new T n = replicate n (fresh T)"

section \<open>The algorithms of the standard library that the source calls\<close>

text \<open>
  Each one is the loop of the library, over indices into the buffer. The callers
  below check that the ranges lie inside the buffers before they run the loop.
\<close>

text \<open>\<^verbatim>\<open>std::fill(first, last, value)\<close>\<close>

function std_fill :: "'a list \<Rightarrow> nat \<Rightarrow> nat \<Rightarrow> 'a \<Rightarrow> 'a list" where
  "std_fill buf first lst v =
     (if first < lst then std_fill (buf[first := v]) (Suc first) lst v else buf)"
  by pat_completeness auto
termination
  by (relation "measure (\<lambda>(buf, first, lst, v). lst - first)") auto

text \<open>\<^verbatim>\<open>std::generate(first, last, g)\<close>\<close>

function std_generate :: "'a list \<Rightarrow> nat \<Rightarrow> nat \<Rightarrow> (unit \<Rightarrow> 'a) \<Rightarrow> 'a list" where
  "std_generate buf first lst g =
     (if first < lst then std_generate (buf[first := g ()]) (Suc first) lst g else buf)"
  by pat_completeness auto
termination
  by (relation "measure (\<lambda>(buf, first, lst, g). lst - first)") auto

text \<open>
  \<^verbatim>\<open>std::copy(first, last, d_first)\<close> from one buffer into another one. With move
  iterators the source buffer is left with moved-from objects; every caller throws
  that buffer away (or, for plain iterators, it is constant), so only the
  destination is computed.
\<close>

function std_copy :: "'a list \<Rightarrow> nat \<Rightarrow> nat \<Rightarrow> 'a list \<Rightarrow> nat \<Rightarrow> 'a list" where
  "std_copy src first lst dst d_first =
     (if first < lst
      then std_copy src (Suc first) lst (dst[d_first := src ! first]) (Suc d_first)
      else dst)"
  by pat_completeness auto
termination
  by (relation "measure (\<lambda>(src, first, lst, dst, d_first). lst - first)") auto

text \<open>
  \<^verbatim>\<open>std::copy(first, last, d_first)\<close> inside one buffer, front to back. \<open>rd\<close> is
  what reading leaves in the source slot: the identity for plain iterators,
  \<open>moved T\<close> for \<^verbatim>\<open>std::make_move_iterator\<close>.
\<close>

function std_copy_within :: "('a \<Rightarrow> 'a) \<Rightarrow> 'a list \<Rightarrow> nat \<Rightarrow> nat \<Rightarrow> nat \<Rightarrow> 'a list" where
  "std_copy_within rd buf first lst d_first =
     (if first < lst
      then std_copy_within rd ((buf[d_first := buf ! first])[first := rd (buf ! first)])
             (Suc first) lst (Suc d_first)
      else buf)"
  by pat_completeness auto
termination
  by (relation "measure (\<lambda>(rd, buf, first, lst, d_first). lst - first)") auto

text \<open>
  \<^verbatim>\<open>std::copy_backward(first, last, d_last)\<close> inside one buffer, back to front:
  \<^verbatim>\<open>while (first != last) *(--d_last) = *(--last);\<close>
\<close>

function std_copy_backward :: "('a \<Rightarrow> 'a) \<Rightarrow> 'a list \<Rightarrow> nat \<Rightarrow> nat \<Rightarrow> nat \<Rightarrow> 'a list" where
  "std_copy_backward rd buf first lst d_last =
     (if first < lst
      then std_copy_backward rd
             ((buf[d_last - 1 := buf ! (lst - 1)])[lst - 1 := rd (buf ! (lst - 1))])
             first (lst - 1) (d_last - 1)
      else buf)"
  by pat_completeness auto
termination
  by (relation "measure (\<lambda>(rd, buf, first, lst, d_last). lst - first)") auto

text \<open>
  \<^verbatim>\<open>std::equal(first1, last1, first2, last2)\<close> and
  \<^verbatim>\<open>std::lexicographical_compare(first1, last1, first2, last2)\<close> on the two ranges,
  with the element type's \<^verbatim>\<open>==\<close> and \<^verbatim>\<open><\<close> as parameters.
\<close>

fun std_equal :: "('a \<Rightarrow> 'a \<Rightarrow> bool) \<Rightarrow> 'a list \<Rightarrow> 'a list \<Rightarrow> bool" where
  "std_equal eq [] [] = True"
| "std_equal eq (x # xs) (y # ys) = (if eq x y then std_equal eq xs ys else False)"
| "std_equal eq [] (y # ys) = False"
| "std_equal eq (x # xs) [] = False"

fun std_lexicographical_compare :: "('a \<Rightarrow> 'a \<Rightarrow> bool) \<Rightarrow> 'a list \<Rightarrow> 'a list \<Rightarrow> bool" where
  "std_lexicographical_compare lt (x # xs) (y # ys) =
     (if lt x y then True
      else if lt y x then False
      else std_lexicographical_compare lt xs ys)"
| "std_lexicographical_compare lt [] (y # ys) = True"
| "std_lexicographical_compare lt xs [] = False"

section \<open>The container\<close>

record ReserveProxyObj =
  capacity_to_reserve :: nat

definition ReserveProxyObj_GetCapacity :: "ReserveProxyObj \<Rightarrow> nat" where
  "ReserveProxyObj_GetCapacity obj = capacity_to_reserve obj"

text \<open>The free function \<^verbatim>\<open>Reserve(capacity_to_reserve)\<close>.\<close>

definition Reserve_proxy :: "nat \<Rightarrow> ReserveProxyObj" where
  "Reserve_proxy n = \<lparr>capacity_to_reserve = n\<rparr>"

record 'a SimpleVector =
  items :: "'a list"
  size_f :: nat
  capacity_f :: nat

definition GetSize :: "'a SimpleVector \<Rightarrow> nat" where
  "GetSize v = size_f v"

definition GetCapacity :: "'a SimpleVector \<Rightarrow> nat" where
  "GetCapacity v = capacity_f v"

definition IsEmpty :: "'a SimpleVector \<Rightarrow> bool" where
  "IsEmpty v = (size_f v = 0)"

text \<open>
  Iterators are pointers into the buffer; a position is its offset from
  \<^verbatim>\<open>items_.Get()\<close>, an integer since a caller can hand in a pointer in front of
  the buffer.
\<close>

definition begin_it :: "'a SimpleVector \<Rightarrow> int" where
  "begin_it v = 0"

definition end_it :: "'a SimpleVector \<Rightarrow> int" where
  "end_it v = int (size_f v)"

subsection \<open>Constructors\<close>

definition SimpleVector_default :: "'a SimpleVector" where
  "SimpleVector_default = \<lparr>items = [], size_f = 0, capacity_f = 0\<rparr>"

definition SimpleVector_sized :: "'a element_type \<Rightarrow> nat \<Rightarrow> 'a SimpleVector" where
  "SimpleVector_sized T n =
     \<lparr>items = std_fill (ArrayPtr_new T n) 0 n (dflt T), size_f = n, capacity_f = n\<rparr>"

definition SimpleVector_filled :: "'a element_type \<Rightarrow> nat \<Rightarrow> 'a \<Rightarrow> 'a SimpleVector" where
  "SimpleVector_filled T n val =
     \<lparr>items = std_fill (ArrayPtr_new T n) 0 n val, size_f = n, capacity_f = n\<rparr>"

definition SimpleVector_init :: "'a element_type \<Rightarrow> 'a list \<Rightarrow> 'a SimpleVector" where
  "SimpleVector_init T init =
     \<lparr>items = std_copy init 0 (length init) (ArrayPtr_new T (length init)) 0,
      size_f = length init, capacity_f = length init\<rparr>"

text \<open>
  The copy constructor: the buffer gets \<^verbatim>\<open>other.GetSize()\<close> slots, the capacity
  field gets \<^verbatim>\<open>other.GetCapacity()\<close>.
\<close>

definition SimpleVector_copy :: "'a element_type \<Rightarrow> 'a SimpleVector \<Rightarrow> error + 'a SimpleVector" where
  "SimpleVector_copy T other =
     (if size_f other \<le> length (items other)
      then Inr \<lparr>items = std_copy (items other) 0 (size_f other)
                          (ArrayPtr_new T (GetSize other)) 0,
                size_f = GetSize other, capacity_f = GetCapacity other\<rparr>
      else Inl UndefinedBehaviour)"

text \<open>The move constructor; the second component is what is left in \<open>other\<close>.\<close>

definition SimpleVector_move :: "'a SimpleVector \<Rightarrow> 'a SimpleVector \<times> 'a SimpleVector" where
  "SimpleVector_move other =
     (\<lparr>items = items other, size_f = size_f other, capacity_f = capacity_f other\<rparr>,
      other\<lparr>items := [], size_f := 0, capacity_f := 0\<rparr>)"

text \<open>
  The constructor from a \<^verbatim>\<open>ReserveProxyObj\<close>: only \<^verbatim>\<open>capacity_\<close> is initialised
  from the object; the buffer and the size keep their default member initialisers.
\<close>

definition SimpleVector_reserved :: "ReserveProxyObj \<Rightarrow> 'a SimpleVector" where
  "SimpleVector_reserved obj =
     \<lparr>items = [], size_f = 0, capacity_f = ReserveProxyObj_GetCapacity obj\<rparr>"

subsection \<open>Element access\<close>

definition subscript :: "'a SimpleVector \<Rightarrow> nat \<Rightarrow> error + 'a" where
  "subscript v index =
     (if index < length (items v) then Inr (items v ! index) else Inl UndefinedBehaviour)"

definition At :: "'a SimpleVector \<Rightarrow> nat \<Rightarrow> error + 'a" where
  "At v index =
     (if index \<ge> size_f v then Inl OutOfRange
      else if index < length (items v) then Inr (items v ! index)
      else Inl UndefinedBehaviour)"

subsection \<open>Capacity and size\<close>

definition Reserve :: "'a element_type \<Rightarrow> 'a SimpleVector \<Rightarrow> nat \<Rightarrow> error + 'a SimpleVector" where
  "Reserve T v new_capacity =
     (if new_capacity > capacity_f v then
        (let tmp = ArrayPtr_new T new_capacity in
         if size_f v \<le> length (items v) \<and> size_f v \<le> length tmp
         then Inr (v\<lparr>items := std_copy (items v) 0 (size_f v) tmp 0,
                      capacity_f := new_capacity\<rparr>)
         else Inl UndefinedBehaviour)
      else Inr v)"

definition Resize :: "'a element_type \<Rightarrow> 'a SimpleVector \<Rightarrow> nat \<Rightarrow> error + 'a SimpleVector" where
  "Resize T v new_size =
     (if new_size \<le> size_f v then Inr (v\<lparr>size_f := new_size\<rparr>)
      else if new_size \<le> capacity_f v then
        (if new_size \<le> length (items v)
         then Inr (v\<lparr>items := std_generate (items v) (size_f v) new_size (\<lambda>u. dflt T),
                      size_f := new_size\<rparr>)
         else Inl UndefinedBehaviour)
      else
        (let new_capacity = max new_size (capacity_f v * 2);
             tmp = ArrayPtr_new T new_capacity
         in if size_f v \<le> length (items v)
            then Inr (v\<lparr>items := std_generate (std_copy (items v) 0 (size_f v) tmp 0)
                                     (size_f v) new_capacity (\<lambda>u. dflt T),
                         size_f := new_size, capacity_f := new_capacity\<rparr>)
            else Inl UndefinedBehaviour))"

definition Clear :: "'a element_type \<Rightarrow> 'a SimpleVector \<Rightarrow> error + 'a SimpleVector" where
  "Clear T v = Resize T v 0"

subsection \<open>Modifiers\<close>

text \<open>
  \<^verbatim>\<open>PushBack\<close> and \<^verbatim>\<open>Insert\<close> take their argument by reference (\<^verbatim>\<open>const Type&\<close> or
  \<^verbatim>\<open>Type&&\<close>). The referenced object is either outside the vector, and then given by
  its value, or it is the slot \<open>j\<close> of the vector's own buffer at the time of the
  call (as in \<^verbatim>\<open>v.Insert(v.begin(), v[1])\<close>); once that buffer has been released the
  reference dangles.
\<close>

datatype 'a reference = Outside 'a | Slot nat | Dangling

text \<open>The assignment \<^verbatim>\<open>items_[i] = r\<close>: the slot receives what \<open>r\<close> refers to now.\<close>

definition slot_assign :: "'a list \<Rightarrow> nat \<Rightarrow> 'a reference \<Rightarrow> error + 'a list" where
  "slot_assign buf i r =
     (if i < length buf then
        (case r of
           Outside x \<Rightarrow> Inr (buf[i := x])
         | Slot j \<Rightarrow> if j < length buf then Inr (buf[i := buf ! j]) else Inl UndefinedBehaviour
         | Dangling \<Rightarrow> Inl UndefinedBehaviour)
      else Inl UndefinedBehaviour)"

text \<open>
  The exchange \<^verbatim>\<open>std::swap(items_[i], r)\<close>: the slot receives what \<open>r\<close> refers to, and
  the referenced object receives the former content of the slot, which changes the
  buffer when that object is one of its slots.
\<close>

definition slot_swap :: "'a list \<Rightarrow> nat \<Rightarrow> 'a reference \<Rightarrow> error + 'a list" where
  "slot_swap buf i r =
     (if i < length buf then
        (case r of
           Outside x \<Rightarrow> Inr (buf[i := x])
         | Slot j \<Rightarrow>
             if j < length buf then Inr ((buf[i := buf ! j])[j := buf ! i])
             else Inl UndefinedBehaviour
         | Dangling \<Rightarrow> Inl UndefinedBehaviour)
      else Inl UndefinedBehaviour)"

text \<open>
  What a reference held across the call \<^verbatim>\<open>Reserve(new_capacity)\<close> refers to afterwards:
  when the call allocates, the old buffer is released at the end of its block.
\<close>

definition after_Reserve :: "'a SimpleVector \<Rightarrow> nat \<Rightarrow> 'a reference \<Rightarrow> 'a reference" where
  "after_Reserve v new_capacity r =
     (if new_capacity > capacity_f v
      then (case r of Outside x \<Rightarrow> Outside x | Slot j \<Rightarrow> Dangling | Dangling \<Rightarrow> Dangling)
      else r)"

text \<open>
  \<^verbatim>\<open>PushBack(const Type& item)\<close>. Its second branch is
  \<^verbatim>\<open>Reserve(new_capacity); std::swap(items_[size_], item); ++size_;\<close>
  with \<open>item\<close> of type \<^verbatim>\<open>const Type&\<close>. \<^verbatim>\<open>std::swap\<close> takes two references to the same
  non-constant type, so no overload is viable for \<^verbatim>\<open>(Type&, const Type&)\<close>, whatever
  \<^verbatim>\<open>Type\<close> is: the body is ill-formed as soon as the overload is instantiated, which
  every call with an lvalue or a constant argument does. The overload has no
  run-time behaviour.
\<close>

definition PushBack :: "'a element_type \<Rightarrow> 'a SimpleVector \<Rightarrow> 'a reference \<Rightarrow> error + 'a SimpleVector" where
  "PushBack T v item = Inl IllFormed"

text \<open>\<^verbatim>\<open>PushBack(Type&& item)\<close>, called with a temporary or with \<^verbatim>\<open>std::move\<close> of an object.\<close>

definition PushBack_move :: "'a element_type \<Rightarrow> 'a SimpleVector \<Rightarrow> 'a reference \<Rightarrow> error + 'a SimpleVector" where
  "PushBack_move T v item =
     (if size_f v < capacity_f v then
        (case slot_swap (items v) (size_f v) item of
           Inl e \<Rightarrow> Inl e
         | Inr buf \<Rightarrow> Inr (v\<lparr>items := buf, size_f := size_f v + 1\<rparr>))
      else
        (let new_capacity = (if capacity_f v = 0 then 1 else capacity_f v * 2) in
         case Reserve T v new_capacity of
           Inl e \<Rightarrow> Inl e
         | Inr v1 \<Rightarrow>
             (case slot_swap (items v1) (size_f v1) (after_Reserve v new_capacity item) of
                Inl e \<Rightarrow> Inl e
              | Inr buf \<Rightarrow> Inr (v1\<lparr>items := buf, size_f := size_f v1 + 1\<rparr>))))"

text \<open>
  A run of \<^verbatim>\<open>PushBack\<close> calls with temporaries (\<^verbatim>\<open>v.PushBack(1); v.PushBack(2); ...\<close>),
  one per element of the list, in order.
\<close>

fun PushBack_all :: "'a element_type \<Rightarrow> 'a SimpleVector \<Rightarrow> 'a list \<Rightarrow> error + 'a SimpleVector" where
  "PushBack_all T v [] = Inr v"
| "PushBack_all T v (x # xs) =
     (case PushBack_move T v (Outside x) of
        Inl e \<Rightarrow> Inl e
      | Inr v1 \<Rightarrow> PushBack_all T v1 xs)"

text \<open>
  The growth step that both \<^verbatim>\<open>Insert\<close> overloads start with:
  \<^verbatim>\<open>if (size_ >= capacity_) { ...; Reserve(new_capacity); capacity_ = new_capacity; }\<close>
  The result is the vector and what the argument refers to after the step.
\<close>

definition Insert_grow :: "'a element_type \<Rightarrow> 'a SimpleVector \<Rightarrow> 'a reference \<Rightarrow> error + 'a SimpleVector \<times> 'a reference" where
  "Insert_grow T v val =
     (if size_f v \<ge> capacity_f v then
        (let new_capacity = (if capacity_f v = 0 then 1 else capacity_f v * 2) in
         case Reserve T v new_capacity of
           Inl e \<Rightarrow> Inl e
         | Inr v1 \<Rightarrow> Inr (v1\<lparr>capacity_f := new_capacity\<rparr>, after_Reserve v new_capacity val))
      else Inr (v, val))"

text \<open>
  \<^verbatim>\<open>Insert(pos, const Type& value)\<close> and \<^verbatim>\<open>Insert(pos, Type&& value)\<close>. The result is
  the vector and the returned iterator, as an offset from the start of the (new)
  buffer. The copy overload shifts with plain iterators and then assigns \<open>value\<close>
  to the slot, the move overload shifts with move iterators and then exchanges
  \<open>value\<close> with the slot; both read \<open>value\<close> after the growth step and after the
  shift.
\<close>

definition Insert :: "'a element_type \<Rightarrow> 'a SimpleVector \<Rightarrow> int \<Rightarrow> 'a reference \<Rightarrow> error + 'a SimpleVector \<times> nat" where
  "Insert T v pos val =
     (if \<not> (pos \<ge> begin_it v \<and> pos \<le> end_it v) then Inl AssertionFailed
      else
        (let index = nat (pos - 0) in
         case Insert_grow T v val of
           Inl e \<Rightarrow> Inl e
         | Inr (v1, val1) \<Rightarrow>
             if size_f v1 + 1 \<le> length (items v1)
             then
               (case slot_assign
                       (std_copy_backward (\<lambda>x. x) (items v1) index (size_f v1) (size_f v1 + 1))
                       index val1 of
                  Inl e \<Rightarrow> Inl e
                | Inr buf \<Rightarrow> Inr (v1\<lparr>items := buf, size_f := size_f v1 + 1\<rparr>, index))
             else Inl UndefinedBehaviour))"

definition Insert_move :: "'a element_type \<Rightarrow> 'a SimpleVector \<Rightarrow> int \<Rightarrow> 'a reference \<Rightarrow> error + 'a SimpleVector \<times> nat" where
  "Insert_move T v pos val =
     (if \<not> (pos \<ge> begin_it v \<and> pos \<le> end_it v) then Inl AssertionFailed
      else
        (let index = nat (pos - 0) in
         case Insert_grow T v val of
           Inl e \<Rightarrow> Inl e
         | Inr (v1, val1) \<Rightarrow>
             if size_f v1 + 1 \<le> length (items v1)
             then
               (case slot_swap
                       (std_copy_backward (moved T) (items v1) index (size_f v1) (size_f v1 + 1))
                       index val1 of
                  Inl e \<Rightarrow> Inl e
                | Inr buf \<Rightarrow> Inr (v1\<lparr>items := buf, size_f := size_f v1 + 1\<rparr>, index))
             else Inl UndefinedBehaviour))"

definition PopBack :: "'a SimpleVector \<Rightarrow> 'a SimpleVector" where
  "PopBack v = v\<lparr>size_f := (if size_f v = 0 then SIZE_MAX else size_f v - 1)\<rparr>"

text \<open>
  \<^verbatim>\<open>Erase(pos)\<close>. The assertion of the source admits \<^verbatim>\<open>pos == end()\<close>; the range
  \<^verbatim>\<open>[index + 1, size_)\<close> handed to \<^verbatim>\<open>std::copy\<close> is then not a range.
\<close>

definition Erase :: "'a element_type \<Rightarrow> 'a SimpleVector \<Rightarrow> int \<Rightarrow> error + 'a SimpleVector \<times> nat" where
  "Erase T v pos =
     (if \<not> (pos \<ge> begin_it v \<and> pos \<le> end_it v) then Inl AssertionFailed
      else
        (let index = nat (pos - 0) in
         if index + 1 \<le> size_f v \<and> size_f v \<le> length (items v)
         then Inr (v\<lparr>items := std_copy_within (moved T) (items v) (index + 1) (size_f v) index,
                      size_f := size_f v - 1\<rparr>, index)
         else Inl UndefinedBehaviour))"

text \<open>\<^verbatim>\<open>a.swap(b)\<close>: the pair is the new \<open>a\<close> and the new \<open>b\<close>.\<close>

definition swap :: "'a SimpleVector \<Rightarrow> 'a SimpleVector \<Rightarrow> 'a SimpleVector \<times> 'a SimpleVector" where
  "swap this other =
     (this\<lparr>items := items other, size_f := size_f other, capacity_f := capacity_f other\<rparr>,
      other\<lparr>items := items this, size_f := size_f this, capacity_f := capacity_f this\<rparr>)"

subsection \<open>Comparison operators\<close>

text \<open>The range \<^verbatim>\<open>[begin(), end())\<close> that the comparison operators read.\<close>

definition elements :: "'a SimpleVector \<Rightarrow> error + 'a list" where
  "elements v =
     (if size_f v \<le> length (items v) then Inr (take (size_f v) (items v))
      else Inl UndefinedBehaviour)"

definition op_eq :: "('a \<Rightarrow> 'a \<Rightarrow> bool) \<Rightarrow> 'a SimpleVector \<Rightarrow> 'a SimpleVector \<Rightarrow> error + bool" where
  "op_eq eq lhs rhs =
     (if GetSize lhs = GetSize rhs then
        (case elements lhs of
           Inl e \<Rightarrow> Inl e
         | Inr xs \<Rightarrow> (case elements rhs of Inl e \<Rightarrow> Inl e | Inr ys \<Rightarrow> Inr (std_equal eq xs ys)))
      else Inr False)"

definition op_ne :: "('a \<Rightarrow> 'a \<Rightarrow> bool) \<Rightarrow> 'a SimpleVector \<Rightarrow> 'a SimpleVector \<Rightarrow> error + bool" where
  "op_ne eq lhs rhs = (case op_eq eq lhs rhs of Inl e \<Rightarrow> Inl e | Inr b \<Rightarrow> Inr (\<not> b))"

definition op_lt :: "('a \<Rightarrow> 'a \<Rightarrow> bool) \<Rightarrow> 'a SimpleVector \<Rightarrow> 'a SimpleVector \<Rightarrow> error + bool" where
  "op_lt lt lhs rhs =
     (case elements lhs of
        Inl e \<Rightarrow> Inl e
      | Inr xs \<Rightarrow>
          (case elements rhs of
             Inl e \<Rightarrow> Inl e
           | Inr ys \<Rightarrow> Inr (std_lexicographical_compare lt xs ys)))"

definition op_gt :: "('a \<Rightarrow> 'a \<Rightarrow> bool) \<Rightarrow> ('a \<Rightarrow> 'a \<Rightarrow> bool) \<Rightarrow> 'a SimpleVector \<Rightarrow> 'a SimpleVector \<Rightarrow> error + bool" where
  "op_gt eq lt lhs rhs =
     (case op_lt lt lhs rhs of
        Inl e \<Rightarrow> Inl e
      | Inr b \<Rightarrow> if \<not> b then op_ne eq lhs rhs else Inr False)"

definition op_le :: "('a \<Rightarrow> 'a \<Rightarrow> bool) \<Rightarrow> ('a \<Rightarrow> 'a \<Rightarrow> bool) \<Rightarrow> 'a SimpleVector \<Rightarrow> 'a SimpleVector \<Rightarrow> error + bool" where
  "op_le eq lt lhs rhs = (case op_gt eq lt lhs rhs of Inl e \<Rightarrow> Inl e | Inr b \<Rightarrow> Inr (\<not> b))"

definition op_ge :: "('a \<Rightarrow> 'a \<Rightarrow> bool) \<Rightarrow> 'a SimpleVector \<Rightarrow> 'a SimpleVector \<Rightarrow> error + bool" where
  "op_ge lt lhs rhs = (case op_lt lt lhs rhs of Inl e \<Rightarrow> Inl e | Inr b \<Rightarrow> Inr (\<not> b))"

section \<open>The data model of the specification\<close>

text \<open>
  The invariant of the spec's data model: \<open>size \<le> capacity\<close> and the capacity field
  is the allocated length of the buffer.
\<close>

definition invariant :: "'a SimpleVector \<Rightarrow> bool" where
  "invariant v = (size_f v \<le> capacity_f v \<and> capacity_f v = length (items v))"

text \<open>
  "Equal", in the words of the spec: equal size and element-wise equal in order.
\<close>

definition elementwise_equal :: "('a \<Rightarrow> 'a \<Rightarrow> bool) \<Rightarrow> 'a list \<Rightarrow> 'a list \<Rightarrow> bool" where
  "elementwise_equal eq xs ys =
     (length xs = length ys \<and> (\<forall>i < length xs. eq (xs ! i) (ys ! i)))"

text \<open>
  "Lexicographically precedes", in the words of the spec: the two sequences agree
  (neither element is less than the other) up to a position where the left
  element is less, or the left sequence ends first on a common prefix.
\<close>

definition lex_precedes :: "('a \<Rightarrow> 'a \<Rightarrow> bool) \<Rightarrow> 'a list \<Rightarrow> 'a list \<Rightarrow> bool" where
  "lex_precedes lt xs ys =
     ((\<exists>i < min (length xs) (length ys).
          (\<forall>j < i. \<not> lt (xs ! j) (ys ! j) \<and> \<not> lt (ys ! j) (xs ! j)) \<and> lt (xs ! i) (ys ! i))
      \<or> (length xs < length ys \<and>
          (\<forall>j < length xs. \<not> lt (xs ! j) (ys ! j) \<and> \<not> lt (ys ! j) (xs ! j))))"

text \<open>
  An element type to run the operations on: \<^verbatim>\<open>int\<close>, whose \<^verbatim>\<open>int()\<close> is 0, whose
  moved-from state is the value itself, and whose freshly allocated slots hold
  some value (here \<open>-1\<close>).
\<close>

definition int_type :: "int element_type" where
  "int_type = \<lparr>dflt = 0, fresh = - 1, moved = (\<lambda>x. x)\<rparr>"

section \<open>What the library loops compute\<close>

text \<open>
  The loops are characterised slot by slot, by induction along their own
  recursion, and then as lists for the ranges the container hands to them.
\<close>

declare std_fill.simps [simp del] std_generate.simps [simp del] std_copy.simps [simp del]
  std_copy_within.simps [simp del] std_copy_backward.simps [simp del]

lemma length_std_fill: "length (std_fill buf first lst v) = length buf"
  by (induction buf first lst v rule: std_fill.induct) (subst std_fill.simps, simp)

lemma nth_std_fill:
  "i < length buf \<Longrightarrow>
   std_fill buf first lst v ! i = (if first \<le> i \<and> i < lst then v else buf ! i)"
proof (induction buf first lst v rule: std_fill.induct)
  case (1 buf first lst v)
  show ?case
  proof (cases "first < lst")
    case True
    then show ?thesis
      using 1 by (subst std_fill.simps) (auto simp: nth_list_update)
  next
    case False
    then show ?thesis by (subst std_fill.simps) auto
  qed
qed

lemma length_std_generate: "length (std_generate buf first lst g) = length buf"
  by (induction buf first lst g rule: std_generate.induct) (subst std_generate.simps, simp)

lemma nth_std_generate:
  "i < length buf \<Longrightarrow>
   std_generate buf first lst g ! i = (if first \<le> i \<and> i < lst then g () else buf ! i)"
proof (induction buf first lst g rule: std_generate.induct)
  case (1 buf first lst g)
  show ?case
  proof (cases "first < lst")
    case True
    then show ?thesis
      using 1 by (subst std_generate.simps) (auto simp: nth_list_update)
  next
    case False
    then show ?thesis by (subst std_generate.simps) auto
  qed
qed

lemma length_std_copy: "length (std_copy src first lst dst d) = length dst"
  by (induction src first lst dst d rule: std_copy.induct) (subst std_copy.simps, simp)

lemma nth_std_copy:
  "i < length dst \<Longrightarrow>
   std_copy src first lst dst d ! i =
     (if d \<le> i \<and> i < d + (lst - first) then src ! (first + (i - d)) else dst ! i)"
proof (induction src first lst dst d rule: std_copy.induct)
  case (1 src first lst dst d)
  show ?case
  proof (cases "first < lst")
    case True
    have step: "std_copy src first lst dst d ! i =
                std_copy src (Suc first) lst (dst[d := src ! first]) (Suc d) ! i"
      using True by (subst std_copy.simps) simp
    have ih: "std_copy src (Suc first) lst (dst[d := src ! first]) (Suc d) ! i =
       (if Suc d \<le> i \<and> i < Suc d + (lst - Suc first)
        then src ! (Suc first + (i - Suc d)) else dst[d := src ! first] ! i)"
      using 1 True by simp
    show ?thesis
    proof (cases "Suc d \<le> i \<and> i < Suc d + (lst - Suc first)")
      case True
      then have "Suc first + (i - Suc d) = first + (i - d)" by arith
      then show ?thesis using True \<open>first < lst\<close> step ih by auto
    next
      case False
      then show ?thesis using \<open>first < lst\<close> step ih 1(2)
        by (cases "i = d") (auto simp: nth_list_update)
    qed
  next
    case False
    then show ?thesis by (subst std_copy.simps) auto
  qed
qed

lemma length_std_copy_within: "length (std_copy_within rd buf first lst d) = length buf"
  by (induction rd buf first lst d rule: std_copy_within.induct)
     (subst std_copy_within.simps, simp)

lemma nth_std_copy_within:
  "i < length buf \<Longrightarrow> lst \<le> length buf \<Longrightarrow> d < first \<Longrightarrow>
   std_copy_within rd buf first lst d ! i =
     (if d \<le> i \<and> i < d + (lst - first) then buf ! (i + (first - d))
      else if first \<le> i \<and> i < lst then rd (buf ! i)
      else buf ! i)"
proof (induction rd buf first lst d rule: std_copy_within.induct)
  case (1 rd buf first lst d)
  show ?case
  proof (cases "first < lst")
    case True
    define buf1 where "buf1 = (buf[d := buf ! first])[first := rd (buf ! first)]"
    have len1: "length buf1 = length buf" by (simp add: buf1_def)
    have b1: "buf1 ! j = (if j = first then rd (buf ! first) else if j = d then buf ! first else buf ! j)"
      if "j < length buf" for j
      using that by (simp add: buf1_def nth_list_update)
    have step: "std_copy_within rd buf first lst d ! i =
                std_copy_within rd buf1 (Suc first) lst (Suc d) ! i"
      using True unfolding buf1_def by (subst std_copy_within.simps) simp
    have ih: "std_copy_within rd buf1 (Suc first) lst (Suc d) ! i =
       (if Suc d \<le> i \<and> i < Suc d + (lst - Suc first) then buf1 ! (i + (Suc first - Suc d))
        else if Suc first \<le> i \<and> i < lst then rd (buf1 ! i)
        else buf1 ! i)"
      using "1.IH" [OF True] "1.prems" len1 unfolding buf1_def by simp
    consider (a) "i = d" | (b) "Suc d \<le> i" "i < Suc d + (lst - Suc first)"
      | (c) "i < d" | (e) "Suc d + (lst - Suc first) \<le> i"
      by linarith
    then show ?thesis
    proof cases
      case a
      have "d \<le> i \<and> i < d + (lst - first)" using a True by linarith
      moreover have "i + (first - d) = first" using a "1.prems" by linarith
      moreover have "\<not> (Suc d \<le> i \<and> i < Suc d + (lst - Suc first))" using a by linarith
      moreover have "\<not> (Suc first \<le> i \<and> i < lst)" using a "1.prems" by linarith
      ultimately show ?thesis
        unfolding step ih using a "1.prems" True by (auto simp: b1)
    next
      case b
      have "i + (first - d) < length buf" using b True "1.prems" by linarith
      moreover have "i + (first - d) \<noteq> first" "i + (first - d) \<noteq> d" using b "1.prems" by linarith+
      moreover have "d \<le> i \<and> i < d + (lst - first)" using b True by linarith
      ultimately show ?thesis
        unfolding step ih using b by (simp add: b1)
    next
      case c
      then show ?thesis
        unfolding step ih using True "1.prems" by (simp add: b1)
    next
      case e
      have n1: "\<not> (Suc d \<le> i \<and> i < Suc d + (lst - Suc first))" using e by linarith
      have n2: "\<not> (d \<le> i \<and> i < d + (lst - first))" using e True by linarith
      have "i \<noteq> d" using e by linarith
      then show ?thesis
        unfolding step ih using n1 n2 "1.prems" True by (cases "i = first") (auto simp: b1)
    qed
  next
    case False
    then show ?thesis by (subst std_copy_within.simps) auto
  qed
qed

lemma length_std_copy_backward: "length (std_copy_backward rd buf first lst d) = length buf"
  by (induction rd buf first lst d rule: std_copy_backward.induct)
     (subst std_copy_backward.simps, simp)

lemma nth_std_copy_backward:
  "i < length buf \<Longrightarrow> d \<le> length buf \<Longrightarrow> lst < d \<Longrightarrow> first \<le> lst \<Longrightarrow>
   std_copy_backward rd buf first lst d ! i =
     (if d - (lst - first) \<le> i \<and> i < d then buf ! (i - (d - lst))
      else if first \<le> i \<and> i < lst then rd (buf ! i)
      else buf ! i)"
proof (induction rd buf first lst d rule: std_copy_backward.induct)
  case (1 rd buf first lst d)
  show ?case
  proof (cases "first < lst")
    case True
    define buf1 where
      "buf1 = (buf[d - 1 := buf ! (lst - 1)])[lst - 1 := rd (buf ! (lst - 1))]"
    have len1: "length buf1 = length buf" by (simp add: buf1_def)
    have b1: "buf1 ! j = (if j = lst - 1 then rd (buf ! (lst - 1))
                          else if j = d - 1 then buf ! (lst - 1) else buf ! j)"
      if "j < length buf" for j
      using that by (simp add: buf1_def nth_list_update)
    have step: "std_copy_backward rd buf first lst d ! i =
                std_copy_backward rd buf1 first (lst - 1) (d - 1) ! i"
      using True unfolding buf1_def by (subst std_copy_backward.simps) simp
    have ih: "std_copy_backward rd buf1 first (lst - 1) (d - 1) ! i =
       (if (d - 1) - ((lst - 1) - first) \<le> i \<and> i < d - 1
        then buf1 ! (i - ((d - 1) - (lst - 1)))
        else if first \<le> i \<and> i < lst - 1 then rd (buf1 ! i)
        else buf1 ! i)"
      using "1.IH" [OF True] "1.prems" True len1 unfolding buf1_def by simp
    have eq1: "(d - 1) - ((lst - 1) - first) = d - (lst - first)" using True "1.prems" by linarith
    have eq2: "(d - 1) - (lst - 1) = d - lst" using True "1.prems" by linarith
    consider (a) "i = d - 1" | (b) "d - (lst - first) \<le> i" "i < d - 1"
      | (c) "d \<le> i" | (e) "i < d - (lst - first)"
      by linarith
    then show ?thesis
    proof cases
      case a
      have "d - (lst - first) \<le> i \<and> i < d" using a True "1.prems" by linarith
      moreover have "i - (d - lst) = lst - 1" using a True "1.prems" by linarith
      moreover have "\<not> (d - (lst - first) \<le> i \<and> i < d - 1)" using a by linarith
      moreover have "\<not> (first \<le> i \<and> i < lst - 1)" using a "1.prems" by linarith
      moreover have "i \<noteq> lst - 1" using a True "1.prems" by linarith
      ultimately show ?thesis
        unfolding step ih eq1 eq2 using a "1.prems" \<open>first < lst\<close> by (auto simp: b1)
    next
      case b
      have "i - (d - lst) < length buf" using b "1.prems" by linarith
      moreover have "i - (d - lst) \<noteq> lst - 1" "i - (d - lst) \<noteq> d - 1"
        using b True "1.prems" by linarith+
      moreover have "d - (lst - first) \<le> i \<and> i < d" using b by linarith
      ultimately show ?thesis
        unfolding step ih eq1 eq2 using b "1.prems" \<open>first < lst\<close> by (auto simp: b1)
    next
      case c
      have "\<not> (d - (lst - first) \<le> i \<and> i < d)" using c by linarith
      moreover have "\<not> (d - (lst - first) \<le> i \<and> i < d - 1)" using c by linarith
      moreover have "\<not> (first \<le> i \<and> i < lst - 1)" "\<not> (first \<le> i \<and> i < lst)"
        using c "1.prems" by linarith+
      moreover have "i \<noteq> lst - 1" "i \<noteq> d - 1" using c True "1.prems" by linarith+
      ultimately show ?thesis
        unfolding step ih eq1 eq2 using "1.prems" \<open>first < lst\<close> by (auto simp: b1)
    next
      case e
      have n1: "\<not> (d - (lst - first) \<le> i \<and> i < d - 1)" using e by linarith
      have n2: "\<not> (d - (lst - first) \<le> i \<and> i < d)" using e by linarith
      have n3: "i \<noteq> d - 1" using e True "1.prems" by linarith
      show ?thesis
      proof (cases "i = lst - 1")
        case True
        then have "first \<le> i \<and> i < lst" "\<not> (first \<le> i \<and> i < lst - 1)"
          using \<open>first < lst\<close> by linarith+
        then show ?thesis
          unfolding step ih eq1 eq2 using n1 n2 True "1.prems" \<open>first < lst\<close> by (auto simp: b1)
      next
        case False
        then have "(first \<le> i \<and> i < lst - 1) = (first \<le> i \<and> i < lst)" by linarith
        then show ?thesis
          unfolding step ih eq1 eq2 using n1 n2 n3 False "1.prems" \<open>first < lst\<close> by (auto simp: b1)
      qed
    qed
  next
    case False
    then have "first = lst" using "1.prems" by simp
    then show ?thesis by (subst std_copy_backward.simps) auto
  qed
qed

lemma std_fill_all: "std_fill (replicate n a) 0 n v = replicate n v"
  by (rule nth_equalityI) (simp_all add: length_std_fill nth_std_fill)

lemma std_copy_prefix:
  "n \<le> length src \<Longrightarrow> n \<le> length dst \<Longrightarrow>
   std_copy src 0 n dst 0 = take n src @ drop n dst"
  by (rule nth_equalityI) (auto simp: length_std_copy nth_std_copy nth_append)

lemma std_generate_range:
  "a \<le> b \<Longrightarrow> b \<le> length buf \<Longrightarrow>
   std_generate buf a b g = take a buf @ replicate (b - a) (g ()) @ drop b buf"
  by (rule nth_equalityI) (auto simp: length_std_generate nth_std_generate nth_append)

lemma erase_shift:
  assumes "k + 1 \<le> n" "n \<le> length buf"
  shows "take (n - 1) (std_copy_within rd buf (k + 1) n k) = take k buf @ drop (k + 1) (take n buf)"
proof (rule nth_equalityI)
  show "length (take (n - 1) (std_copy_within rd buf (k + 1) n k)) =
        length (take k buf @ drop (k + 1) (take n buf))"
    using assms by (simp add: length_std_copy_within)
next
  fix i assume "i < length (take (n - 1) (std_copy_within rd buf (k + 1) n k))"
  then have i: "i < n - 1" by simp
  then have il: "i < length buf" using assms by linarith
  have "std_copy_within rd buf (k + 1) n k ! i = (if k \<le> i then buf ! (i + 1) else buf ! i)"
    using nth_std_copy_within [OF il assms(2), of k "k + 1" rd] i assms by auto
  moreover have "(take k buf @ drop (k + 1) (take n buf)) ! i = (if k \<le> i then buf ! (i + 1) else buf ! i)"
    using i assms by (auto simp: nth_append min_def)
  ultimately show "take (n - 1) (std_copy_within rd buf (k + 1) n k) ! i =
      (take k buf @ drop (k + 1) (take n buf)) ! i"
    using i by simp
qed

lemma erase_tail:
  assumes "k + 1 \<le> n" "n \<le> length buf"
  shows "drop n (std_copy_within rd buf (k + 1) n k) = drop n buf"
proof (rule nth_equalityI)
  show "length (drop n (std_copy_within rd buf (k + 1) n k)) = length (drop n buf)"
    by (simp add: length_std_copy_within)
next
  fix i assume "i < length (drop n (std_copy_within rd buf (k + 1) n k))"
  then have il: "n + i < length buf" by (simp add: length_std_copy_within)
  have "std_copy_within rd buf (k + 1) n k ! (n + i) = buf ! (n + i)"
    using nth_std_copy_within [OF il assms(2), of k "k + 1" rd] assms by auto
  then show "drop n (std_copy_within rd buf (k + 1) n k) ! i = drop n buf ! i"
    using il assms by (simp add: length_std_copy_within)
qed

lemma insert_shift:
  assumes "k \<le> n" "n + 1 \<le> length buf"
  shows "take (n + 1) ((std_copy_backward rd buf k n (n + 1))[k := x]) =
         take k buf @ [x] @ drop k (take n buf)"
proof (rule nth_equalityI)
  show "length (take (n + 1) ((std_copy_backward rd buf k n (n + 1))[k := x])) =
        length (take k buf @ [x] @ drop k (take n buf))"
    using assms by (simp add: length_std_copy_backward)
next
  fix i assume "i < length (take (n + 1) ((std_copy_backward rd buf k n (n + 1))[k := x]))"
  then have i: "i < n + 1" by simp
  then have il: "i < length buf" using assms by linarith
  have cb: "std_copy_backward rd buf k n (n + 1) ! i =
        (if k + 1 \<le> i then buf ! (i - 1) else if k \<le> i \<and> i < n then rd (buf ! i) else buf ! i)"
    using nth_std_copy_backward [OF il assms(2), of n k rd] i assms by auto
  have "((std_copy_backward rd buf k n (n + 1))[k := x]) ! i =
        (if i = k then x else if k + 1 \<le> i then buf ! (i - 1) else buf ! i)"
    using cb il by (auto simp: nth_list_update length_std_copy_backward)
  moreover have "(take k buf @ [x] @ drop k (take n buf)) ! i =
        (if i = k then x else if k + 1 \<le> i then buf ! (i - 1) else buf ! i)"
    using i assms by (auto simp: nth_append min_def nth_Cons')
  ultimately show "take (n + 1) ((std_copy_backward rd buf k n (n + 1))[k := x]) ! i =
      (take k buf @ [x] @ drop k (take n buf)) ! i"
    using i by simp
qed

lemma insert_tail:
  assumes "k \<le> n" "n + 1 \<le> length buf"
  shows "drop (n + 1) ((std_copy_backward rd buf k n (n + 1))[k := x]) = drop (n + 1) buf"
proof (rule nth_equalityI)
  show "length (drop (n + 1) ((std_copy_backward rd buf k n (n + 1))[k := x])) =
        length (drop (n + 1) buf)"
    by (simp add: length_std_copy_backward)
next
  fix i assume "i < length (drop (n + 1) ((std_copy_backward rd buf k n (n + 1))[k := x]))"
  then have il: "n + 1 + i < length buf" by (simp add: length_std_copy_backward)
  have "std_copy_backward rd buf k n (n + 1) ! (n + 1 + i) = buf ! (n + 1 + i)"
    using nth_std_copy_backward [OF il assms(2), of n k rd] assms by auto
  then show "drop (n + 1) ((std_copy_backward rd buf k n (n + 1))[k := x]) ! i =
      drop (n + 1) buf ! i"
    using il assms by (simp add: length_std_copy_backward nth_list_update)
qed

section \<open>Constructors\<close>

lemma SimpleVector_sized_eq:
  "SimpleVector_sized T n = \<lparr>items = replicate n (dflt T), size_f = n, capacity_f = n\<rparr>"
  by (simp add: SimpleVector_sized_def ArrayPtr_new_def std_fill_all)

lemma SimpleVector_filled_eq:
  "SimpleVector_filled T n x = \<lparr>items = replicate n x, size_f = n, capacity_f = n\<rparr>"
  by (simp add: SimpleVector_filled_def ArrayPtr_new_def std_fill_all)

lemma SimpleVector_init_eq:
  "SimpleVector_init T xs = \<lparr>items = xs, size_f = length xs, capacity_f = length xs\<rparr>"
  by (simp add: SimpleVector_init_def ArrayPtr_new_def std_copy_prefix)

lemma SimpleVector_copy_eq:
  "size_f other \<le> length (items other) \<Longrightarrow>
   SimpleVector_copy T other =
     Inr \<lparr>items = take (size_f other) (items other), size_f = size_f other,
          capacity_f = capacity_f other\<rparr>"
  by (simp add: SimpleVector_copy_def ArrayPtr_new_def std_copy_prefix GetSize_def GetCapacity_def)

lemma invariant_constructors:
  "invariant (SimpleVector_default :: 'a SimpleVector)"
  "invariant (SimpleVector_sized T n)"
  "invariant (SimpleVector_filled T n x)"
  "invariant (SimpleVector_init T xs)"
  "invariant (fst (SimpleVector_move v)) = invariant v"
  "invariant (snd (SimpleVector_move v))"
  by (simp_all add: invariant_def SimpleVector_default_def SimpleVector_sized_eq
      SimpleVector_filled_eq SimpleVector_init_eq SimpleVector_move_def)

section \<open>Reserve\<close>

lemma Reserve_grow:
  assumes "capacity_f v < n" "size_f v \<le> length (items v)" "size_f v \<le> capacity_f v"
  shows "Reserve T v n =
         Inr (v\<lparr>items := take (size_f v) (items v) @ replicate (n - size_f v) (fresh T),
                 capacity_f := n\<rparr>)"
  using assms by (simp add: Reserve_def ArrayPtr_new_def std_copy_prefix)

text \<open>
  Claim C7. \<^verbatim>\<open>Reserve(newCapacity)\<close>: if \<open>newCapacity \<le> capacity\<close> the vector is
  entirely unchanged; otherwise (on a vector whose size is within its capacity and
  its buffer) the capacity becomes exactly \<open>newCapacity\<close>, the buffer has that many
  slots, and the size and the first \<open>size\<close> elements, in order, are unchanged.
\<close>

theorem Reserve_frame:
  "(n \<le> capacity_f v \<longrightarrow> Reserve T v n = Inr v) \<and>
   (capacity_f v < n \<and> size_f v \<le> capacity_f v \<and> size_f v \<le> length (items v) \<longrightarrow>
      (\<exists>v'. Reserve T v n = Inr v' \<and> capacity_f v' = n \<and> length (items v') = n \<and>
            size_f v' = size_f v \<and>
            take (size_f v) (items v') = take (size_f v) (items v)))"
proof (intro conjI impI)
  assume "n \<le> capacity_f v"
  then show "Reserve T v n = Inr v" by (simp add: Reserve_def)
next
  assume h: "capacity_f v < n \<and> size_f v \<le> capacity_f v \<and> size_f v \<le> length (items v)"
  then show "\<exists>v'. Reserve T v n = Inr v' \<and> capacity_f v' = n \<and> length (items v') = n \<and>
            size_f v' = size_f v \<and>
            take (size_f v) (items v') = take (size_f v) (items v)"
    using Reserve_grow [of v n T] by simp
qed

theorem Reserve_frame_witness:
  "Reserve int_type \<lparr>items = [1, 2, 3], size_f = 3, capacity_f = 3\<rparr> 2 =
     Inr \<lparr>items = [1, 2, 3], size_f = 3, capacity_f = 3\<rparr> \<and>
   (\<exists>v'. Reserve int_type \<lparr>items = [1, 2, 3], size_f = 3, capacity_f = 3\<rparr> 10 = Inr v' \<and>
         capacity_f v' = 10 \<and> length (items v') = 10 \<and> size_f v' = 3 \<and>
         take 3 (items v') = [1, 2, 3])"
  using Reserve_frame [of 2 "\<lparr>items = [1, 2, 3], size_f = 3, capacity_f = 3\<rparr>" int_type]
        Reserve_frame [of 10 "\<lparr>items = [1, 2, 3], size_f = 3, capacity_f = 3\<rparr>" int_type]
  by simp

section \<open>Element access\<close>

text \<open>
  Claim C3. \<^verbatim>\<open>At(i)\<close> fails with the out-of-range error exactly when \<open>i \<ge> size\<close>
  (whatever the size, 0 included); for \<open>i < size\<close> it returns what the unchecked
  \<^verbatim>\<open>operator[]\<close> returns, which is the element in slot \<open>i\<close> when the live elements
  lie inside the buffer.
\<close>

theorem At_checked:
  "(At v i = Inl OutOfRange \<longleftrightarrow> i \<ge> size_f v) \<and>
   (i < size_f v \<longrightarrow> At v i = subscript v i) \<and>
   (i < size_f v \<and> size_f v \<le> length (items v) \<longrightarrow>
      At v i = Inr (items v ! i) \<and> subscript v i = Inr (items v ! i))"
  by (simp add: At_def subscript_def)

theorem At_checked_witness:
  "At \<lparr>items = [10, 20, 30 :: int], size_f = 3, capacity_f = 3\<rparr> 1 = Inr 20 \<and>
   subscript \<lparr>items = [10, 20, 30 :: int], size_f = 3, capacity_f = 3\<rparr> 1 = Inr 20 \<and>
   At \<lparr>items = [10, 20, 30 :: int], size_f = 3, capacity_f = 3\<rparr> 3 = Inl OutOfRange \<and>
   At (SimpleVector_default :: int SimpleVector) 0 = Inl OutOfRange"
  using At_checked [of "\<lparr>items = [10, 20, 30 :: int], size_f = 3, capacity_f = 3\<rparr>" 1]
        At_checked [of "\<lparr>items = [10, 20, 30 :: int], size_f = 3, capacity_f = 3\<rparr>" 3]
        At_checked [of "SimpleVector_default :: int SimpleVector" 0]
  by (simp add: SimpleVector_default_def)

section \<open>swap\<close>

text \<open>
  Claim C10. \<^verbatim>\<open>a.swap(b)\<close> exchanges the complete contents: afterwards \<open>a\<close> holds
  \<open>b\<close>'s former buffer, size and capacity and \<open>b\<close> holds \<open>a\<close>'s, so that swapping the
  same pair a second time restores both.
\<close>

theorem swap_exchanges:
  "swap a b = (b, a) \<and>
   items (fst (swap a b)) = items b \<and> size_f (fst (swap a b)) = size_f b \<and>
   capacity_f (fst (swap a b)) = capacity_f b \<and>
   items (snd (swap a b)) = items a \<and> size_f (snd (swap a b)) = size_f a \<and>
   capacity_f (snd (swap a b)) = capacity_f a \<and>
   swap (fst (swap a b)) (snd (swap a b)) = (a, b)"
  by (simp add: swap_def)

section \<open>Resize\<close>

lemma Resize_shrink: "n \<le> size_f v \<Longrightarrow> Resize T v n = Inr (v\<lparr>size_f := n\<rparr>)"
  by (simp add: Resize_def)

lemma Resize_in_place:
  "size_f v < n \<Longrightarrow> n \<le> capacity_f v \<Longrightarrow> n \<le> length (items v) \<Longrightarrow>
   Resize T v n =
     Inr (v\<lparr>items := take (size_f v) (items v) @ replicate (n - size_f v) (dflt T) @
                      drop n (items v),
             size_f := n\<rparr>)"
  by (simp add: Resize_def std_generate_range)

lemma Resize_grow:
  assumes "capacity_f v < n" "size_f v \<le> capacity_f v" "size_f v \<le> length (items v)"
  shows "Resize T v n =
     Inr (v\<lparr>items := take (size_f v) (items v) @
                      replicate (max n (capacity_f v * 2) - size_f v) (dflt T),
             size_f := n, capacity_f := max n (capacity_f v * 2)\<rparr>)"
proof -
  let ?c = "max n (capacity_f v * 2)"
  have le: "size_f v \<le> ?c" using assms by simp
  have cp: "std_copy (items v) 0 (size_f v) (replicate ?c (fresh T)) 0 =
            take (size_f v) (items v) @ replicate (?c - size_f v) (fresh T)"
    using assms le by (simp add: std_copy_prefix)
  have gen: "std_generate (take (size_f v) (items v) @ replicate (?c - size_f v) (fresh T))
               (size_f v) ?c (\<lambda>u. dflt T) =
             take (size_f v) (items v) @ replicate (?c - size_f v) (dflt T)"
    using assms le by (subst std_generate_range) (simp_all add: min_absorb2)
  show ?thesis
    using assms by (simp add: Resize_def Let_def ArrayPtr_new_def cp gen)
qed

text \<open>
  On a vector that satisfies the invariant, \<^verbatim>\<open>Resize(newSize)\<close> does the following: if
  \<open>newSize \<le> size\<close>, only the size changes (to \<open>newSize\<close>); if
  \<open>size < newSize \<le> capacity\<close>, the slots \<open>[size, newSize)\<close> receive the default value,
  the other slots and the capacity are unchanged and the size becomes \<open>newSize\<close>; if
  \<open>newSize > capacity\<close>, the capacity becomes \<open>max newSize (capacity * 2)\<close>, the first
  \<open>size\<close> elements are kept in order, every further slot up to the new capacity
  holds the default value, and the size becomes \<open>newSize\<close>.
\<close>

lemma Resize_cases:
  "(n \<le> size_f v \<longrightarrow> Resize T v n = Inr (v\<lparr>size_f := n\<rparr>)) \<and>
   (invariant v \<and> size_f v < n \<and> n \<le> capacity_f v \<longrightarrow>
      (\<exists>v'. Resize T v n = Inr v' \<and> size_f v' = n \<and> capacity_f v' = capacity_f v \<and>
            items v' = take (size_f v) (items v) @ replicate (n - size_f v) (dflt T) @
                       drop n (items v))) \<and>
   (invariant v \<and> capacity_f v < n \<longrightarrow>
      (\<exists>v'. Resize T v n = Inr v' \<and> size_f v' = n \<and>
            capacity_f v' = max n (capacity_f v * 2) \<and>
            length (items v') = capacity_f v' \<and>
            items v' = take (size_f v) (items v) @
                       replicate (capacity_f v' - size_f v) (dflt T)))"
proof (intro conjI impI)
  assume "n \<le> size_f v"
  then show "Resize T v n = Inr (v\<lparr>size_f := n\<rparr>)" by (rule Resize_shrink)
next
  assume h: "invariant v \<and> size_f v < n \<and> n \<le> capacity_f v"
  then have "Resize T v n =
     Inr (v\<lparr>items := take (size_f v) (items v) @ replicate (n - size_f v) (dflt T) @
                      drop n (items v), size_f := n\<rparr>)"
    by (intro Resize_in_place) (simp_all add: invariant_def)
  then show "\<exists>v'. Resize T v n = Inr v' \<and> size_f v' = n \<and> capacity_f v' = capacity_f v \<and>
            items v' = take (size_f v) (items v) @ replicate (n - size_f v) (dflt T) @
                       drop n (items v)"
    by simp
next
  assume h: "invariant v \<and> capacity_f v < n"
  then have "Resize T v n =
     Inr (v\<lparr>items := take (size_f v) (items v) @
                      replicate (max n (capacity_f v * 2) - size_f v) (dflt T),
             size_f := n, capacity_f := max n (capacity_f v * 2)\<rparr>)"
    by (intro Resize_grow) (simp_all add: invariant_def)
  moreover have "size_f v \<le> max n (capacity_f v * 2)" "size_f v \<le> length (items v)"
    using h by (auto simp: invariant_def)
  ultimately show "\<exists>v'. Resize T v n = Inr v' \<and> size_f v' = n \<and>
            capacity_f v' = max n (capacity_f v * 2) \<and>
            length (items v') = capacity_f v' \<and>
            items v' = take (size_f v) (items v) @
                       replicate (capacity_f v' - size_f v) (dflt T)"
    by simp
qed

lemma Resize_cases_example:
  "Resize int_type \<lparr>items = [1, 2, 3, 9], size_f = 3, capacity_f = 4\<rparr> 2 =
     Inr \<lparr>items = [1, 2, 3, 9], size_f = 2, capacity_f = 4\<rparr> \<and>
   (\<exists>v'. Resize int_type \<lparr>items = [1, 2, 3, 9], size_f = 3, capacity_f = 4\<rparr> 4 = Inr v' \<and>
         size_f v' = 4 \<and> capacity_f v' = 4 \<and> items v' = [1, 2, 3, 0]) \<and>
   (\<exists>v'. Resize int_type \<lparr>items = [1, 2, 3, 9], size_f = 3, capacity_f = 4\<rparr> 5 = Inr v' \<and>
         size_f v' = 5 \<and> capacity_f v' = 8 \<and> length (items v') = 8 \<and>
         items v' = [1, 2, 3, 0, 0, 0, 0, 0])"
proof -
  define v0 :: "int SimpleVector" where
    "v0 = \<lparr>items = [1, 2, 3, 9], size_f = 3, capacity_f = 4\<rparr>"
  have inv: "invariant v0" by (simp add: v0_def invariant_def)
  have r5: "replicate 5 (0::int) = [0, 0, 0, 0, 0]" by (simp add: numeral_eq_Suc)
  have a: "Resize int_type v0 2 = Inr \<lparr>items = [1, 2, 3, 9], size_f = 2, capacity_f = 4\<rparr>"
    using Resize_cases [of 2 v0 int_type] by (simp add: v0_def)
  have b: "\<exists>v'. Resize int_type v0 4 = Inr v' \<and> size_f v' = 4 \<and> capacity_f v' = 4 \<and>
                items v' = [1, 2, 3, 0]"
    using Resize_cases [of 4 v0 int_type] inv by (simp add: v0_def int_type_def)
  have c: "\<exists>v'. Resize int_type v0 5 = Inr v' \<and> size_f v' = 5 \<and> capacity_f v' = 8 \<and>
                length (items v') = 8 \<and> items v' = [1, 2, 3, 0, 0, 0, 0, 0]"
    using Resize_cases [of 5 v0 int_type] inv by (auto simp: v0_def int_type_def r5)
  show ?thesis using a b c unfolding v0_def by simp
qed

section \<open>PushBack\<close>

lemma after_Reserve_Outside: "after_Reserve v n (Outside x) = Outside x"
  by (simp add: after_Reserve_def)

lemma PushBack_room:
  "size_f v < capacity_f v \<Longrightarrow> size_f v < length (items v) \<Longrightarrow>
   PushBack_move T v (Outside x) =
     Inr (v\<lparr>items := (items v)[size_f v := x], size_f := size_f v + 1\<rparr>)"
  by (simp add: PushBack_move_def slot_swap_def)

lemma update_first_fresh:
  "0 < m \<Longrightarrow> (xs @ replicate m y)[length xs := x] = xs @ x # replicate (m - 1) y"
  by (cases m) (simp_all add: list_update_append)

lemma PushBack_full:
  assumes "size_f v = capacity_f v" "capacity_f v = length (items v)"
    and c: "c = (if capacity_f v = 0 then 1 else capacity_f v * 2)"
  shows "PushBack_move T v (Outside x) =
     Inr (v\<lparr>items := items v @ x # replicate (c - size_f v - 1) (fresh T),
             size_f := size_f v + 1, capacity_f := c\<rparr>)"
proof -
  have lt: "capacity_f v < c" by (simp add: c)
  have r: "Reserve T v c =
      Inr (v\<lparr>items := items v @ replicate (c - size_f v) (fresh T), capacity_f := c\<rparr>)"
    using Reserve_grow [of v c T] lt assms(1,2) by simp
  have m: "0 < c - size_f v" using lt assms(1) by simp
  have upd: "(items v @ replicate (c - size_f v) (fresh T))[size_f v := x] =
             items v @ x # replicate (c - size_f v - 1) (fresh T)"
    using update_first_fresh [OF m, of "items v" "fresh T" x] assms(1,2) by simp
  have "PushBack_move T v (Outside x) =
        (case Reserve T v c of
           Inl e \<Rightarrow> Inl e
         | Inr v1 \<Rightarrow>
             (case slot_swap (items v1) (size_f v1) (Outside x) of
                Inl e \<Rightarrow> Inl e
              | Inr buf \<Rightarrow> Inr (v1\<lparr>items := buf, size_f := size_f v1 + 1\<rparr>)))"
    using assms(1) unfolding PushBack_move_def Let_def c after_Reserve_Outside by simp
  also have "\<dots> = Inr (v\<lparr>items := items v @ x # replicate (c - size_f v - 1) (fresh T),
             size_f := size_f v + 1, capacity_f := c\<rparr>)"
    unfolding r using m assms(1,2) upd by (simp add: slot_swap_def)
  finally show ?thesis .
qed

lemma PushBack_ok:
  assumes "invariant v"
  shows "\<exists>v'. PushBack_move T v (Outside x) = Inr v' \<and> invariant v' \<and> size_f v' = size_f v + 1 \<and>
              take (size_f v') (items v') = take (size_f v) (items v) @ [x]"
proof (cases "size_f v < capacity_f v")
  case True
  then have "PushBack_move T v (Outside x) =
      Inr (v\<lparr>items := (items v)[size_f v := x], size_f := size_f v + 1\<rparr>)"
    using assms by (intro PushBack_room) (simp_all add: invariant_def)
  then show ?thesis
    using True assms by (simp add: invariant_def take_Suc_conv_app_nth)
next
  case False
  then have eq: "size_f v = capacity_f v" "capacity_f v = length (items v)"
    using assms by (simp_all add: invariant_def)
  define c where "c = (if capacity_f v = 0 then 1 else capacity_f v * 2)"
  have lt: "capacity_f v < c" by (simp add: c_def)
  have "PushBack_move T v (Outside x) =
     Inr (v\<lparr>items := items v @ x # replicate (c - size_f v - 1) (fresh T),
             size_f := size_f v + 1, capacity_f := c\<rparr>)"
    using eq c_def by (rule PushBack_full)
  then show ?thesis
    using eq lt by (simp add: invariant_def)
qed

lemma PushBack_all_ok:
  "invariant v \<Longrightarrow>
   \<exists>v'. PushBack_all T v xs = Inr v' \<and> invariant v' \<and> size_f v' = size_f v + length xs \<and>
        take (size_f v') (items v') = take (size_f v) (items v) @ xs"
proof (induction xs arbitrary: v)
  case Nil
  then show ?case by simp
next
  case (Cons x xs)
  from PushBack_ok [OF Cons.prems, of T x] obtain v1 where
    v1: "PushBack_move T v (Outside x) = Inr v1" "invariant v1" "size_f v1 = size_f v + 1"
        "take (size_f v1) (items v1) = take (size_f v) (items v) @ [x]"
    by blast
  from Cons.IH [OF v1(2)] obtain v' where
    v': "PushBack_all T v1 xs = Inr v'" "invariant v'" "size_f v' = size_f v1 + length xs"
        "take (size_f v') (items v') = take (size_f v1) (items v1) @ xs"
    by blast
  show ?case using v1 v' by simp
qed

text \<open>
  \<^verbatim>\<open>PushBack(Type&&)\<close> with an argument outside the vector, on a vector that
  satisfies the invariant: if \<open>size < capacity\<close> the new element is stored in slot
  \<open>size\<close> and the size grows by one, the capacity staying as it is; otherwise the
  capacity becomes 1 if it was 0 and twice its value if not, the element is stored
  in slot \<open>size\<close>, the elements before it are kept and the size grows by one. Hence
  a run of \<open>n\<close> such calls appends its \<open>n\<close> arguments in order; started on the empty
  vector it yields size \<open>n\<close> and exactly the arguments, in insertion order.
\<close>

lemma PushBack_move_appends:
  "(invariant v \<longrightarrow>
      (size_f v < capacity_f v \<longrightarrow>
         PushBack_move T v (Outside x) =
           Inr (v\<lparr>items := (items v)[size_f v := x], size_f := size_f v + 1\<rparr>)) \<and>
      (\<not> size_f v < capacity_f v \<longrightarrow>
         (\<exists>v'. PushBack_move T v (Outside x) = Inr v' \<and>
               capacity_f v' = (if capacity_f v = 0 then 1 else capacity_f v * 2) \<and>
               length (items v') = capacity_f v' \<and>
               size_f v' = size_f v + 1 \<and>
               items v' ! size_f v = x \<and>
               take (size_f v) (items v') = take (size_f v) (items v))) \<and>
      (\<exists>w. PushBack_all T v xs = Inr w \<and> size_f w = size_f v + length xs \<and>
           take (size_f w) (items w) = take (size_f v) (items v) @ xs)) \<and>
   (\<exists>w. PushBack_all T SimpleVector_default xs = Inr w \<and> size_f w = length xs \<and>
        take (size_f w) (items w) = xs \<and> elements w = Inr xs)"
proof (intro conjI impI)
  assume inv: "invariant v" and lt: "size_f v < capacity_f v"
  then show "PushBack_move T v (Outside x) =
           Inr (v\<lparr>items := (items v)[size_f v := x], size_f := size_f v + 1\<rparr>)"
    by (intro PushBack_room) (simp_all add: invariant_def)
next
  assume inv: "invariant v" and full: "\<not> size_f v < capacity_f v"
  define c where "c = (if capacity_f v = 0 then 1 else capacity_f v * 2)"
  have eq: "size_f v = capacity_f v" "capacity_f v = length (items v)"
    using inv full by (simp_all add: invariant_def)
  have lt: "capacity_f v < c" by (simp add: c_def)
  have "PushBack_move T v (Outside x) =
     Inr (v\<lparr>items := items v @ x # replicate (c - size_f v - 1) (fresh T),
             size_f := size_f v + 1, capacity_f := c\<rparr>)"
    using eq c_def by (rule PushBack_full)
  then show "\<exists>v'. PushBack_move T v (Outside x) = Inr v' \<and>
               capacity_f v' = (if capacity_f v = 0 then 1 else capacity_f v * 2) \<and>
               length (items v') = capacity_f v' \<and>
               size_f v' = size_f v + 1 \<and>
               items v' ! size_f v = x \<and>
               take (size_f v) (items v') = take (size_f v) (items v)"
    using eq lt by (auto simp: c_def)
next
  assume inv: "invariant v"
  from PushBack_all_ok [OF inv, of T xs]
  show "\<exists>w. PushBack_all T v xs = Inr w \<and> size_f w = size_f v + length xs \<and>
           take (size_f w) (items w) = take (size_f v) (items v) @ xs"
    by blast
next
  from PushBack_all_ok [OF invariant_constructors(1), of T xs] obtain w where
    w: "PushBack_all T SimpleVector_default xs = Inr w" "invariant w"
       "size_f w = size_f (SimpleVector_default :: 'a SimpleVector) + length xs"
       "take (size_f w) (items w) = take (size_f (SimpleVector_default :: 'a SimpleVector))
          (items (SimpleVector_default :: 'a SimpleVector)) @ xs"
    by blast
  have "size_f w = length xs" "take (size_f w) (items w) = xs"
    using w(3,4) by (simp_all add: SimpleVector_default_def)
  moreover have "size_f w \<le> length (items w)" using w(2) by (simp add: invariant_def)
  ultimately show "\<exists>w. PushBack_all T SimpleVector_default xs = Inr w \<and> size_f w = length xs \<and>
        take (size_f w) (items w) = xs \<and> elements w = Inr xs"
    using w(1) by (simp add: elements_def)
qed

lemma PushBack_move_appends_example:
  "PushBack_move int_type \<lparr>items = [1, 2, 3, 9], size_f = 3, capacity_f = 4\<rparr> (Outside 4) =
     Inr \<lparr>items = [1, 2, 3, 4], size_f = 4, capacity_f = 4\<rparr> \<and>
   (\<exists>v'. PushBack_move int_type \<lparr>items = [1, 2], size_f = 2, capacity_f = 2\<rparr> (Outside 3) = Inr v' \<and>
         capacity_f v' = 4 \<and> length (items v') = 4 \<and> size_f v' = 3 \<and>
         items v' ! 2 = 3 \<and> take 2 (items v') = [1, 2]) \<and>
   (\<exists>v'. PushBack_move int_type SimpleVector_default (Outside 3) = Inr v' \<and> capacity_f v' = 1 \<and>
         size_f v' = 1 \<and> items v' ! 0 = 3) \<and>
   (\<exists>w. PushBack_all int_type \<lparr>items = [1, 2], size_f = 2, capacity_f = 2\<rparr> [3, 4, 5] = Inr w \<and>
        size_f w = 5 \<and> take (size_f w) (items w) = [1, 2, 3, 4, 5])"
proof -
  have i1: "invariant \<lparr>items = [1, 2, 3, 9 :: int], size_f = 3, capacity_f = 4\<rparr>"
    and i2: "invariant \<lparr>items = [1, 2 :: int], size_f = 2, capacity_f = 2\<rparr>"
    and i3: "invariant (SimpleVector_default :: int SimpleVector)"
    by (simp_all add: invariant_def SimpleVector_default_def)
  have a: "PushBack_move int_type \<lparr>items = [1, 2, 3, 9], size_f = 3, capacity_f = 4\<rparr> (Outside 4) =
     Inr \<lparr>items = [1, 2, 3, 4], size_f = 4, capacity_f = 4\<rparr>"
    using PushBack_move_appends [of "\<lparr>items = [1, 2, 3, 9], size_f = 3, capacity_f = 4\<rparr>" int_type 4 "[]"] i1
    by simp
  have b: "\<exists>v'. PushBack_move int_type \<lparr>items = [1, 2], size_f = 2, capacity_f = 2\<rparr> (Outside 3) = Inr v' \<and>
         capacity_f v' = 4 \<and> length (items v') = 4 \<and> size_f v' = 3 \<and>
         items v' ! 2 = 3 \<and> take 2 (items v') = [1, 2]"
    using PushBack_move_appends [of "\<lparr>items = [1, 2], size_f = 2, capacity_f = 2\<rparr>" int_type 3 "[]"] i2
    by auto
  have c: "\<exists>v'. PushBack_move int_type SimpleVector_default (Outside 3) = Inr v' \<and> capacity_f v' = 1 \<and>
         size_f v' = 1 \<and> items v' ! 0 = 3"
    using PushBack_move_appends [of "SimpleVector_default" int_type 3 "[]"] i3
    by (auto simp: SimpleVector_default_def)
  have d: "\<exists>w. PushBack_all int_type \<lparr>items = [1, 2], size_f = 2, capacity_f = 2\<rparr> [3, 4, 5] = Inr w \<and>
        size_f w = 5 \<and> take (size_f w) (items w) = [1, 2, 3, 4, 5]"
    using PushBack_move_appends [of "\<lparr>items = [1, 2], size_f = 2, capacity_f = 2\<rparr>" int_type 3 "[3, 4, 5]"] i2
    by auto
  show ?thesis using a b c d by blast
qed

section \<open>Insert\<close>

lemma Insert_grow_ok:
  assumes "invariant v"
  shows "\<exists>v1. Insert_grow T v (Outside x) = Inr (v1, Outside x) \<and> invariant v1 \<and>
              size_f v1 = size_f v \<and>
              size_f v1 < capacity_f v1 \<and>
              take (size_f v) (items v1) = take (size_f v) (items v) \<and>
              capacity_f v1 =
                (if size_f v \<ge> capacity_f v
                 then (if capacity_f v = 0 then 1 else capacity_f v * 2)
                 else capacity_f v)"
proof (cases "size_f v \<ge> capacity_f v")
  case True
  define c where "c = (if capacity_f v = 0 then 1 else capacity_f v * 2)"
  have lt: "capacity_f v < c" by (simp add: c_def)
  have eq: "size_f v = capacity_f v" "capacity_f v = length (items v)"
    using True assms by (simp_all add: invariant_def)
  have r: "Reserve T v c =
      Inr (v\<lparr>items := take (size_f v) (items v) @ replicate (c - size_f v) (fresh T),
              capacity_f := c\<rparr>)"
    using lt eq by (intro Reserve_grow) simp_all
  have "Insert_grow T v (Outside x) =
        (case Reserve T v c of
           Inl e \<Rightarrow> Inl e
         | Inr v1 \<Rightarrow> Inr (v1\<lparr>capacity_f := c\<rparr>, Outside x))"
    using True unfolding Insert_grow_def Let_def c_def after_Reserve_Outside by simp
  then have "Insert_grow T v (Outside x) =
      Inr (v\<lparr>items := take (size_f v) (items v) @ replicate (c - size_f v) (fresh T),
              capacity_f := c\<rparr>, Outside x)"
    unfolding r by simp
  then show ?thesis
    using True eq lt by (auto simp: invariant_def c_def)
next
  case False
  then have "Insert_grow T v (Outside x) = Inr (v, Outside x)" by (simp add: Insert_grow_def)
  then show ?thesis using False assms by simp
qed

lemma insert_result:
  assumes "k \<le> n" "n + 1 \<le> length buf"
  shows "(std_copy_backward rd buf k n (n + 1))[k := x] =
         take k buf @ [x] @ drop k (take n buf) @ drop (n + 1) buf"
proof -
  let ?r = "(std_copy_backward rd buf k n (n + 1))[k := x]"
  have "?r = take (n + 1) ?r @ drop (n + 1) ?r" by simp
  also have "\<dots> = (take k buf @ [x] @ drop k (take n buf)) @ drop (n + 1) buf"
    using insert_shift [OF assms, of rd x] insert_tail [OF assms, of rd x] by simp
  finally show ?thesis by simp
qed

lemma take_prefix: "length xs = m \<Longrightarrow> take m (xs @ ys) = xs"
  by simp

lemma Insert_both:
  assumes inv: "invariant v" and pos: "begin_it v \<le> pos" "pos \<le> end_it v"
  shows "\<exists>v'. Insert T v pos (Outside x) = Inr (v', nat pos) \<and>
              Insert_move T v pos (Outside x) = Inr (v', nat pos) \<and>
              size_f v' = size_f v + 1 \<and>
              capacity_f v' =
                (if size_f v \<ge> capacity_f v
                 then (if capacity_f v = 0 then 1 else capacity_f v * 2)
                 else capacity_f v) \<and>
              invariant v' \<and>
              take (size_f v') (items v') =
                take (nat pos) (items v) @ [x] @ drop (nat pos) (take (size_f v) (items v))"
proof -
  define k where "k = nat pos"
  define n where "n = size_f v"
  from Insert_grow_ok [OF inv, of T x] obtain v1 where
    g: "Insert_grow T v (Outside x) = Inr (v1, Outside x)" and inv1: "invariant v1" and sz: "size_f v1 = n"
    and room: "size_f v1 < capacity_f v1"
    and keep: "take n (items v1) = take n (items v)"
    and cap: "capacity_f v1 =
                (if size_f v \<ge> capacity_f v
                 then (if capacity_f v = 0 then 1 else capacity_f v * 2)
                 else capacity_f v)"
    unfolding n_def by blast
  have kn: "k \<le> n" using pos by (simp add: k_def n_def begin_it_def end_it_def)
  have len: "n + 1 \<le> length (items v1)" using inv1 room sz by (simp add: invariant_def)
  define its where
    "its = take k (items v1) @ [x] @ drop k (take n (items v1)) @ drop (n + 1) (items v1)"
  define v' where "v' = v1\<lparr>items := its, size_f := n + 1\<rparr>"
  have ok: "\<not> (\<not> (pos \<ge> begin_it v \<and> pos \<le> end_it v))" using pos by simp
  have ir: "(std_copy_backward rd (items v1) k n (n + 1))[k := x] = its" for rd
    unfolding its_def using kn len by (rule insert_result)
  have kl: "k < length (items v1)" using kn len by simp
  have i1: "Insert T v pos (Outside x) = Inr (v', k)"
    unfolding Insert_def Let_def g using ok len sz kl ir [of "\<lambda>x. x"]
    by (simp add: v'_def k_def slot_assign_def length_std_copy_backward)
  have i2: "Insert_move T v pos (Outside x) = Inr (v', k)"
    unfolding Insert_move_def Let_def g using ok len sz kl ir [of "moved T"]
    by (simp add: v'_def k_def slot_swap_def length_std_copy_backward)
  have tk: "take k (items v1) = take k (items v)"
  proof -
    have "take k (items v1) = take k (take n (items v1))" using kn by (simp add: min_absorb1)
    also have "\<dots> = take k (take n (items v))" by (simp only: keep)
    also have "\<dots> = take k (items v)" using kn by (simp add: min_absorb1)
    finally show ?thesis .
  qed
  have lk: "length (take k (items v1)) = k" using kn len by simp
  have ld: "length (drop k (take n (items v1))) = n - k" using len by simp
  have t: "take (n + 1) its = take k (items v) @ [x] @ drop k (take n (items v))"
  proof -
    have "length (take k (items v1) @ [x] @ drop k (take n (items v1))) = n + 1"
      using lk ld kn by simp
    from take_prefix [OF this, of "drop (n + 1) (items v1)"]
    have "take (n + 1) its = take k (items v1) @ [x] @ drop k (take n (items v1))"
      unfolding its_def by simp
    then show ?thesis by (simp only: tk keep)
  qed
  have l: "length its = length (items v1)"
    unfolding its_def using lk kn len by simp
  have "invariant v'" using inv1 room sz l by (simp add: v'_def invariant_def)
  moreover have "size_f v' = size_f v + 1" by (simp add: v'_def n_def)
  moreover have "capacity_f v' =
                (if size_f v \<ge> capacity_f v
                 then (if capacity_f v = 0 then 1 else capacity_f v * 2)
                 else capacity_f v)" using cap by (simp add: v'_def)
  moreover have "take (size_f v') (items v') =
                take (nat pos) (items v) @ [x] @ drop (nat pos) (take (size_f v) (items v))"
    using t by (simp add: v'_def k_def n_def)
  ultimately show ?thesis using i1 i2 unfolding k_def by blast
qed

lemma insert_nth_facts:
  assumes e: "take (n + 1) ys = take k xs @ [x] @ drop k (take n xs)"
    and kn: "k \<le> n" and nl: "n \<le> length xs"
  shows "ys ! k = x"
    and "\<forall>i < k. ys ! i = xs ! i"
    and "\<forall>i. k \<le> i \<and> i < n \<longrightarrow> ys ! (i + 1) = xs ! i"
proof -
  have nth: "ys ! j = (take k xs @ [x] @ drop k (take n xs)) ! j" if "j < n + 1" for j
    using that by (metis e nth_take)
  have lk: "length (take k xs) = k" using kn nl by simp
  show "ys ! k = x"
    using nth [of k] kn nl lk by (simp add: nth_append)
  show "\<forall>i < k. ys ! i = xs ! i"
  proof (intro allI impI)
    fix i assume "i < k"
    then show "ys ! i = xs ! i" using nth [of i] kn nl lk by (simp add: nth_append)
  qed
  show "\<forall>i. k \<le> i \<and> i < n \<longrightarrow> ys ! (i + 1) = xs ! i"
  proof (intro allI impI)
    fix i assume i: "k \<le> i \<and> i < n"
    then have "ys ! (i + 1) = (take k xs @ [x] @ drop k (take n xs)) ! (i + 1)"
      using nth [of "i + 1"] by simp
    also have "\<dots> = drop k (take n xs) ! (i - k)"
      using i lk by (simp add: nth_append Suc_diff_le)
    also have "\<dots> = xs ! i" using i nl by simp
    finally show "ys ! (i + 1) = xs ! i" .
  qed
qed

text \<open>
  \<^verbatim>\<open>Insert(pos, value)\<close> (copy and move overload, which then change the vector in
  the same way) with \<open>pos\<close> in \<open>[begin, end]\<close> and an argument outside the vector, on
  a vector that satisfies the invariant: if the vector is at capacity, the capacity
  is doubled (or becomes 1 if it was 0) and the elements keep their order; every
  element at or after the offset of \<open>pos\<close> moves one slot towards the tail, the
  elements before it stay, the value is stored in the freed slot, the size grows
  by one, and the returned iterator is the offset of the inserted element in the
  (possibly new) buffer.
\<close>

lemma Insert_shifts:
  "invariant v \<and> begin_it v \<le> pos \<and> pos \<le> end_it v \<longrightarrow>
     (\<exists>v'. Insert T v pos (Outside x) = Inr (v', nat pos) \<and>
           Insert_move T v pos (Outside x) = Inr (v', nat pos) \<and>
           size_f v' = size_f v + 1 \<and>
           capacity_f v' =
             (if size_f v \<ge> capacity_f v
              then (if capacity_f v = 0 then 1 else capacity_f v * 2)
              else capacity_f v) \<and>
           length (items v') = capacity_f v' \<and>
           take (size_f v') (items v') =
             take (nat pos) (items v) @ [x] @ drop (nat pos) (take (size_f v) (items v)) \<and>
           items v' ! nat pos = x \<and>
           (\<forall>i < nat pos. items v' ! i = items v ! i) \<and>
           (\<forall>i. nat pos \<le> i \<and> i < size_f v \<longrightarrow> items v' ! (i + 1) = items v ! i))"
proof
  assume h: "invariant v \<and> begin_it v \<le> pos \<and> pos \<le> end_it v"
  then have inv: "invariant v" and p: "begin_it v \<le> pos" "pos \<le> end_it v" by simp_all
  from Insert_both [OF inv p, of T x] obtain v' where
    v': "Insert T v pos (Outside x) = Inr (v', nat pos)" "Insert_move T v pos (Outside x) = Inr (v', nat pos)"
        "size_f v' = size_f v + 1"
        "capacity_f v' =
             (if size_f v \<ge> capacity_f v
              then (if capacity_f v = 0 then 1 else capacity_f v * 2)
              else capacity_f v)"
        "invariant v'"
        "take (size_f v') (items v') =
           take (nat pos) (items v) @ [x] @ drop (nat pos) (take (size_f v) (items v))"
    by blast
  have kn: "nat pos \<le> size_f v" using p by (simp add: begin_it_def end_it_def)
  have nl: "size_f v \<le> length (items v)" using inv by (simp add: invariant_def)
  have e: "take (size_f v + 1) (items v') =
           take (nat pos) (items v) @ [x] @ drop (nat pos) (take (size_f v) (items v))"
    using v'(6) by (simp only: v'(3))
  note f = insert_nth_facts [OF e kn nl]
  have "length (items v') = capacity_f v'" using v'(5) by (simp add: invariant_def)
  then show "\<exists>v'. Insert T v pos (Outside x) = Inr (v', nat pos) \<and>
           Insert_move T v pos (Outside x) = Inr (v', nat pos) \<and>
           size_f v' = size_f v + 1 \<and>
           capacity_f v' =
             (if size_f v \<ge> capacity_f v
              then (if capacity_f v = 0 then 1 else capacity_f v * 2)
              else capacity_f v) \<and>
           length (items v') = capacity_f v' \<and>
           take (size_f v') (items v') =
             take (nat pos) (items v) @ [x] @ drop (nat pos) (take (size_f v) (items v)) \<and>
           items v' ! nat pos = x \<and>
           (\<forall>i < nat pos. items v' ! i = items v ! i) \<and>
           (\<forall>i. nat pos \<le> i \<and> i < size_f v \<longrightarrow> items v' ! (i + 1) = items v ! i)"
    using v'(1,2,3,4,6) f by blast
qed

lemma Insert_shifts_example:
  "(\<exists>v'. Insert int_type \<lparr>items = [1, 3, 4, 9], size_f = 3, capacity_f = 4\<rparr> 1 (Outside 2) = Inr (v', 1) \<and>
         Insert_move int_type \<lparr>items = [1, 3, 4, 9], size_f = 3, capacity_f = 4\<rparr> 1 (Outside 2) = Inr (v', 1) \<and>
         size_f v' = 4 \<and> capacity_f v' = 4 \<and> take 4 (items v') = [1, 2, 3, 4] \<and>
         items v' ! 1 = 2) \<and>
   (\<exists>v'. Insert int_type \<lparr>items = [1, 2], size_f = 2, capacity_f = 2\<rparr> 0 (Outside 0) = Inr (v', 0) \<and>
         size_f v' = 3 \<and> capacity_f v' = 4 \<and> length (items v') = 4 \<and>
         take 3 (items v') = [0, 1, 2]) \<and>
   (\<exists>v'. Insert int_type SimpleVector_default 0 (Outside 7) = Inr (v', 0) \<and>
         size_f v' = 1 \<and> capacity_f v' = 1 \<and> items v' = [7])"
proof -
  have a: "\<exists>v'. Insert int_type \<lparr>items = [1, 3, 4, 9], size_f = 3, capacity_f = 4\<rparr> 1 (Outside 2) = Inr (v', 1) \<and>
         Insert_move int_type \<lparr>items = [1, 3, 4, 9], size_f = 3, capacity_f = 4\<rparr> 1 (Outside 2) = Inr (v', 1) \<and>
         size_f v' = 4 \<and> capacity_f v' = 4 \<and> take 4 (items v') = [1, 2, 3, 4] \<and>
         items v' ! 1 = 2"
    using Insert_shifts [of "\<lparr>items = [1, 3, 4, 9], size_f = 3, capacity_f = 4\<rparr>" 1 int_type 2]
    by (auto simp: invariant_def begin_it_def end_it_def)
  have b: "\<exists>v'. Insert int_type \<lparr>items = [1, 2], size_f = 2, capacity_f = 2\<rparr> 0 (Outside 0) = Inr (v', 0) \<and>
         size_f v' = 3 \<and> capacity_f v' = 4 \<and> length (items v') = 4 \<and>
         take 3 (items v') = [0, 1, 2]"
    using Insert_shifts [of "\<lparr>items = [1, 2], size_f = 2, capacity_f = 2\<rparr>" 0 int_type 0]
    by (auto simp: invariant_def begin_it_def end_it_def)
  have c: "\<exists>v'. Insert int_type SimpleVector_default 0 (Outside 7) = Inr (v', 0) \<and>
         size_f v' = 1 \<and> capacity_f v' = 1 \<and> items v' = [7]"
  proof -
    from Insert_shifts [of "SimpleVector_default" 0 int_type 7]
    obtain v' where v': "Insert int_type SimpleVector_default 0 (Outside 7) = Inr (v', 0)"
      "size_f v' = 1" "capacity_f v' = 1" "length (items v') = 1" "items v' ! 0 = 7"
      by (auto simp: invariant_def begin_it_def end_it_def SimpleVector_default_def)
    have "items v' = [7]"
      using v'(4,5) by (cases "items v'") simp_all
    then show ?thesis using v' by blast
  qed
  show ?thesis using a b c by blast
qed

section \<open>Erase\<close>

lemma Erase_ok:
  assumes inv: "invariant v" and pos: "begin_it v \<le> pos" "pos < end_it v"
  shows "\<exists>v'. Erase T v pos = Inr (v', nat pos) \<and>
              size_f v' = size_f v - 1 \<and> capacity_f v' = capacity_f v \<and>
              invariant v' \<and>
              take (size_f v') (items v') =
                take (nat pos) (items v) @ drop (nat pos + 1) (take (size_f v) (items v))"
proof -
  define k where "k = nat pos"
  define n where "n = size_f v"
  have kn: "k + 1 \<le> n" using pos by (simp add: k_def n_def begin_it_def end_it_def)
  have len: "n \<le> length (items v)" using inv by (simp add: invariant_def n_def)
  define v' where
    "v' = v\<lparr>items := std_copy_within (moved T) (items v) (k + 1) n k, size_f := n - 1\<rparr>"
  have ok: "\<not> (\<not> (pos \<ge> begin_it v \<and> pos \<le> end_it v))" using pos by simp
  have e: "Erase T v pos = Inr (v', k)"
    unfolding Erase_def Let_def using ok kn len
    by (simp add: v'_def k_def n_def)
  have "invariant v'"
    using inv kn by (auto simp: v'_def invariant_def length_std_copy_within n_def)
  moreover have "take (size_f v') (items v') =
                take (nat pos) (items v) @ drop (nat pos + 1) (take (size_f v) (items v))"
    using erase_shift [OF kn len, of "moved T"] by (simp add: v'_def k_def n_def)
  ultimately show ?thesis using e by (simp add: v'_def k_def n_def)
qed




section \<open>Comparison operators\<close>

text \<open>
  The two library algorithms compute the relations of the spec: \<^verbatim>\<open>std::equal\<close> is
  "equal size and element-wise equal in order", \<^verbatim>\<open>std::lexicographical_compare\<close> is
  "lexicographically precedes".
\<close>

lemma elementwise_equal_Cons:
  "elementwise_equal eq (x # xs) (y # ys) = (eq x y \<and> elementwise_equal eq xs ys)"
proof
  assume h: "elementwise_equal eq (x # xs) (y # ys)"
  then have len: "length xs = length ys"
    and all: "\<And>i. i < Suc (length xs) \<Longrightarrow> eq ((x # xs) ! i) ((y # ys) ! i)"
    by (simp_all add: elementwise_equal_def)
  have "eq x y" using all [of 0] by simp
  moreover have "eq (xs ! i) (ys ! i)" if "i < length xs" for i
    using all [of "Suc i"] that by simp
  ultimately show "eq x y \<and> elementwise_equal eq xs ys"
    using len by (simp add: elementwise_equal_def)
next
  assume h: "eq x y \<and> elementwise_equal eq xs ys"
  then have len: "length xs = length ys"
    and all: "\<And>i. i < length xs \<Longrightarrow> eq (xs ! i) (ys ! i)"
    by (simp_all add: elementwise_equal_def)
  have "eq ((x # xs) ! i) ((y # ys) ! i)" if "i < Suc (length xs)" for i
    using that h all by (cases i) simp_all
  then show "elementwise_equal eq (x # xs) (y # ys)"
    using len by (simp add: elementwise_equal_def)
qed

lemma std_equal_iff: "std_equal eq xs ys = elementwise_equal eq xs ys"
proof (induction eq xs ys rule: std_equal.induct)
  case (1 eq)
  show ?case by (simp add: elementwise_equal_def)
next
  case (2 eq x xs y ys)
  then show ?case by (simp add: elementwise_equal_Cons)
next
  case (3 eq y ys)
  show ?case by (simp add: elementwise_equal_def)
next
  case (4 eq x xs)
  show ?case by (simp add: elementwise_equal_def)
qed

lemma lex_precedes_Nil: "lex_precedes lt [] (y # ys)" "\<not> lex_precedes lt xs []"
  by (simp_all add: lex_precedes_def)

lemma lex_precedes_Cons:
  "lex_precedes lt (x # xs) (y # ys) =
     (lt x y \<or> (\<not> lt x y \<and> \<not> lt y x \<and> lex_precedes lt xs ys))"
proof
  assume "lex_precedes lt (x # xs) (y # ys)"
  then consider
    (a) i where "i < min (Suc (length xs)) (Suc (length ys))"
        "\<forall>j < i. \<not> lt ((x # xs) ! j) ((y # ys) ! j) \<and> \<not> lt ((y # ys) ! j) ((x # xs) ! j)"
        "lt ((x # xs) ! i) ((y # ys) ! i)"
    | (b) "length xs < length ys"
        "\<forall>j < Suc (length xs). \<not> lt ((x # xs) ! j) ((y # ys) ! j) \<and> \<not> lt ((y # ys) ! j) ((x # xs) ! j)"
    by (auto simp: lex_precedes_def)
  then show "lt x y \<or> (\<not> lt x y \<and> \<not> lt y x \<and> lex_precedes lt xs ys)"
  proof cases
    case a
    show ?thesis
    proof (cases i)
      case 0
      then show ?thesis using a(3) by simp
    next
      case (Suc i')
      have hd: "\<not> lt x y \<and> \<not> lt y x" using a(2) Suc by (auto dest: spec [of _ 0])
      have "i' < min (length xs) (length ys)" using a(1) Suc by simp
      moreover have "\<forall>j < i'. \<not> lt (xs ! j) (ys ! j) \<and> \<not> lt (ys ! j) (xs ! j)"
      proof (intro allI impI)
        fix j assume "j < i'"
        then have "Suc j < i" using Suc by simp
        then show "\<not> lt (xs ! j) (ys ! j) \<and> \<not> lt (ys ! j) (xs ! j)"
          using a(2) by (auto dest: spec [of _ "Suc j"])
      qed
      moreover have "lt (xs ! i') (ys ! i')" using a(3) Suc by simp
      ultimately have "lex_precedes lt xs ys" unfolding lex_precedes_def by blast
      then show ?thesis using hd by simp
    qed
  next
    case b
    have hd: "\<not> lt x y \<and> \<not> lt y x" using b(2) by (auto dest: spec [of _ 0])
    have "\<forall>j < length xs. \<not> lt (xs ! j) (ys ! j) \<and> \<not> lt (ys ! j) (xs ! j)"
    proof (intro allI impI)
      fix j assume "j < length xs"
      then show "\<not> lt (xs ! j) (ys ! j) \<and> \<not> lt (ys ! j) (xs ! j)"
        using b(2) by (auto dest: spec [of _ "Suc j"])
    qed
    then have "lex_precedes lt xs ys" using b(1) unfolding lex_precedes_def by blast
    then show ?thesis using hd by simp
  qed
next
  assume r: "lt x y \<or> (\<not> lt x y \<and> \<not> lt y x \<and> lex_precedes lt xs ys)"
  show "lex_precedes lt (x # xs) (y # ys)"
  proof (cases "lt x y")
    case True
    have "0 < min (length (x # xs)) (length (y # ys))" by simp
    moreover have "\<forall>j < 0. \<not> lt ((x # xs) ! j) ((y # ys) ! j) \<and> \<not> lt ((y # ys) ! j) ((x # xs) ! j)"
      by simp
    moreover have "lt ((x # xs) ! 0) ((y # ys) ! 0)" using True by simp
    ultimately show ?thesis unfolding lex_precedes_def by blast
  next
    case False
    then have hd: "\<not> lt x y" "\<not> lt y x" and tl: "lex_precedes lt xs ys" using r by simp_all
    from tl consider
      (a) i where "i < min (length xs) (length ys)"
          "\<forall>j < i. \<not> lt (xs ! j) (ys ! j) \<and> \<not> lt (ys ! j) (xs ! j)"
          "lt (xs ! i) (ys ! i)"
      | (b) "length xs < length ys"
          "\<forall>j < length xs. \<not> lt (xs ! j) (ys ! j) \<and> \<not> lt (ys ! j) (xs ! j)"
      by (auto simp: lex_precedes_def)
    then show ?thesis
    proof cases
      case a
      have "Suc i < min (length (x # xs)) (length (y # ys))" using a(1) by simp
      moreover have "\<forall>j < Suc i. \<not> lt ((x # xs) ! j) ((y # ys) ! j) \<and>
                                 \<not> lt ((y # ys) ! j) ((x # xs) ! j)"
      proof (intro allI impI)
        fix j assume "j < Suc i"
        then show "\<not> lt ((x # xs) ! j) ((y # ys) ! j) \<and> \<not> lt ((y # ys) ! j) ((x # xs) ! j)"
          using hd a(2) by (cases j) simp_all
      qed
      moreover have "lt ((x # xs) ! Suc i) ((y # ys) ! Suc i)" using a(3) by simp
      ultimately show ?thesis unfolding lex_precedes_def by blast
    next
      case b
      have "length (x # xs) < length (y # ys)" using b(1) by simp
      moreover have "\<forall>j < length (x # xs). \<not> lt ((x # xs) ! j) ((y # ys) ! j) \<and>
                                 \<not> lt ((y # ys) ! j) ((x # xs) ! j)"
      proof (intro allI impI)
        fix j assume "j < length (x # xs)"
        then show "\<not> lt ((x # xs) ! j) ((y # ys) ! j) \<and> \<not> lt ((y # ys) ! j) ((x # xs) ! j)"
          using hd b(2) by (cases j) simp_all
      qed
      ultimately show ?thesis unfolding lex_precedes_def by blast
    qed
  qed
qed

lemma std_lexicographical_compare_iff:
  "std_lexicographical_compare lt xs ys = lex_precedes lt xs ys"
proof (induction lt xs ys rule: std_lexicographical_compare.induct)
  case (1 lt x xs y ys)
  then show ?case by (auto simp: lex_precedes_Cons)
next
  case (2 lt y ys)
  show ?case by (simp add: lex_precedes_Nil)
next
  case (3 lt xs)
  show ?case by (simp add: lex_precedes_Nil)
qed

lemma elements_Inr:
  "(elements v = Inr xs) = (size_f v \<le> length (items v) \<and> xs = take (size_f v) (items v))"
  by (auto simp: elements_def)

text \<open>
  Claim C9. For two vectors \<open>a\<close> and \<open>b\<close> whose live elements are the sequences \<open>xs\<close>
  and \<open>ys\<close> (of length \<open>size a\<close> and \<open>size b\<close>): \<open>a == b\<close> holds iff the sizes are
  equal and the contents are element-wise equal in order; \<open>a < b\<close> holds iff \<open>xs\<close>
  lexicographically precedes \<open>ys\<close> (element by element, the shorter sequence first
  when it is a prefix); \<open>!=\<close> is the negation of \<open>==\<close>, \<open>a > b\<close> is "not \<open>a < b\<close> and
  not \<open>a == b\<close>", \<open>a <= b\<close> is "\<open>a < b\<close> or \<open>a == b\<close>" and \<open>a >= b\<close> is "not \<open>a < b\<close>".
  The element type's \<^verbatim>\<open>==\<close> and \<^verbatim>\<open><\<close> are arbitrary.
\<close>

theorem comparison_operators:
  "(invariant a \<longrightarrow> elements a = Inr (take (size_f a) (items a))) \<and>
   (elements a = Inr xs \<and> elements b = Inr ys \<longrightarrow>
      length xs = size_f a \<and> length ys = size_f b \<and>
      op_eq eq a b = Inr (elementwise_equal eq xs ys) \<and>
      op_ne eq a b = Inr (\<not> elementwise_equal eq xs ys) \<and>
      op_lt lt a b = Inr (lex_precedes lt xs ys) \<and>
      op_gt eq lt a b = Inr (\<not> lex_precedes lt xs ys \<and> \<not> elementwise_equal eq xs ys) \<and>
      op_le eq lt a b = Inr (lex_precedes lt xs ys \<or> elementwise_equal eq xs ys) \<and>
      op_ge lt a b = Inr (\<not> lex_precedes lt xs ys))"
proof (intro conjI impI)
  assume "invariant a"
  then show "elements a = Inr (take (size_f a) (items a))"
    by (simp add: invariant_def elements_def)
next
  assume h: "elements a = Inr xs \<and> elements b = Inr ys"
  then have ea: "elements a = Inr xs" and eb: "elements b = Inr ys" by simp_all
  show la: "length xs = size_f a" using ea by (auto simp: elements_Inr)
  show lb: "length ys = size_f b" using eb by (auto simp: elements_Inr)
  have neq: "\<not> elementwise_equal eq xs ys" if "size_f a \<noteq> size_f b"
    using that la lb by (simp add: elementwise_equal_def)
  show eq: "op_eq eq a b = Inr (elementwise_equal eq xs ys)"
    using neq by (simp add: op_eq_def GetSize_def ea eb std_equal_iff)
  show ne: "op_ne eq a b = Inr (\<not> elementwise_equal eq xs ys)"
    by (simp add: op_ne_def eq)
  show lt: "op_lt lt a b = Inr (lex_precedes lt xs ys)"
    by (simp add: op_lt_def ea eb std_lexicographical_compare_iff)
  show gt: "op_gt eq lt a b = Inr (\<not> lex_precedes lt xs ys \<and> \<not> elementwise_equal eq xs ys)"
    by (simp add: op_gt_def lt ne)
  show "op_le eq lt a b = Inr (lex_precedes lt xs ys \<or> elementwise_equal eq xs ys)"
    by (simp add: op_le_def gt)
  show "op_ge lt a b = Inr (\<not> lex_precedes lt xs ys)"
    by (simp add: op_ge_def lt)
qed

theorem comparison_operators_witness:
  "elements (SimpleVector_init int_type [1, 2, 3]) = Inr [1, 2, 3] \<and>
   op_lt (<) (SimpleVector_init int_type [1, 2, 3]) (SimpleVector_init int_type [1, 2, 4]) = Inr True \<and>
   lex_precedes (<) [1, 2, 3 :: int] [1, 2, 4] \<and>
   op_lt (<) (SimpleVector_init int_type [1, 2]) (SimpleVector_init int_type [1, 2, 4]) = Inr True \<and>
   lex_precedes (<) [1, 2 :: int] [1, 2, 4] \<and>
   op_eq (=) (SimpleVector_init int_type [1, 2, 3]) (SimpleVector_init int_type [1, 2, 3]) = Inr True \<and>
   elementwise_equal (=) [1, 2, 3 :: int] [1, 2, 3] \<and>
   op_eq (=) (SimpleVector_init int_type [1, 2]) (SimpleVector_init int_type [1, 2, 4]) = Inr False \<and>
   op_gt (=) (<) (SimpleVector_init int_type [1, 2, 4]) (SimpleVector_init int_type [1, 2, 3]) = Inr True \<and>
   op_le (=) (<) (SimpleVector_init int_type [1, 2, 4]) (SimpleVector_init int_type [1, 2, 3]) = Inr False \<and>
   op_ge (<) (SimpleVector_init int_type [1, 2, 4]) (SimpleVector_init int_type [1, 2, 3]) = Inr True"
proof -
  have e: "elements (SimpleVector_init int_type zs) = Inr zs" for zs
    by (simp add: SimpleVector_init_eq elements_def)
  have inv: "invariant (SimpleVector_init int_type [1, 2, 3])"
    by (rule invariant_constructors)
  have lt1: "op_lt (<) (SimpleVector_init int_type [1, 2, 3]) (SimpleVector_init int_type [1, 2, 4]) = Inr True"
    by (simp add: op_lt_def e)
  have lt2: "op_lt (<) (SimpleVector_init int_type [1, 2]) (SimpleVector_init int_type [1, 2, 4]) = Inr True"
    by (simp add: op_lt_def e)
  have eq1: "op_eq (=) (SimpleVector_init int_type [1, 2, 3]) (SimpleVector_init int_type [1, 2, 3]) = Inr True"
    by (simp add: op_eq_def e GetSize_def)
  have lt3: "op_lt (<) (SimpleVector_init int_type [1, 2, 4]) (SimpleVector_init int_type [1, 2, 3]) = Inr False"
    by (simp add: op_lt_def e)
  have eq3: "op_eq (=) (SimpleVector_init int_type [1, 2, 4]) (SimpleVector_init int_type [1, 2, 3]) = Inr False"
    by (simp add: op_eq_def e GetSize_def)
  note t1 = comparison_operators [of "SimpleVector_init int_type [1, 2, 3]" "[1, 2, 3]"
      "SimpleVector_init int_type [1, 2, 4]" "[1, 2, 4]" "(=)" "(<)"]
  note t2 = comparison_operators [of "SimpleVector_init int_type [1, 2]" "[1, 2]"
      "SimpleVector_init int_type [1, 2, 4]" "[1, 2, 4]" "(=)" "(<)"]
  note t3 = comparison_operators [of "SimpleVector_init int_type [1, 2, 3]" "[1, 2, 3]"
      "SimpleVector_init int_type [1, 2, 3]" "[1, 2, 3]" "(=)" "(<)"]
  note t4 = comparison_operators [of "SimpleVector_init int_type [1, 2, 4]" "[1, 2, 4]"
      "SimpleVector_init int_type [1, 2, 3]" "[1, 2, 3]" "(=)" "(<)"]
  have e0: "elements (SimpleVector_init int_type [1, 2, 3]) = Inr [1, 2, 3]"
    using t1 inv by (simp add: SimpleVector_init_eq)
  have a: "lex_precedes (<) [1, 2, 3 :: int] [1, 2, 4]" using t1 lt1 by (simp add: e)
  have b: "lex_precedes (<) [1, 2 :: int] [1, 2, 4]" using t2 lt2 by (simp add: e)
  have b2: "op_eq (=) (SimpleVector_init int_type [1, 2]) (SimpleVector_init int_type [1, 2, 4]) = Inr False"
    using t2 by (simp add: e elementwise_equal_def)
  have c: "elementwise_equal (=) [1, 2, 3 :: int] [1, 2, 3]" using t3 eq1 by (simp add: e)
  have d: "\<not> lex_precedes (<) [1, 2, 4 :: int] [1, 2, 3]" "\<not> elementwise_equal (=) [1, 2, 4 :: int] [1, 2, 3]"
    using t4 lt3 eq3 by (simp_all add: e)
  have g: "op_gt (=) (<) (SimpleVector_init int_type [1, 2, 4]) (SimpleVector_init int_type [1, 2, 3]) = Inr True"
    "op_le (=) (<) (SimpleVector_init int_type [1, 2, 4]) (SimpleVector_init int_type [1, 2, 3]) = Inr False"
    "op_ge (<) (SimpleVector_init int_type [1, 2, 4]) (SimpleVector_init int_type [1, 2, 3]) = Inr True"
    using t4 d by (simp_all add: e)
  show ?thesis using e0 lt1 lt2 eq1 a b b2 c g by simp
qed

text \<open>
  For an element type whose \<^verbatim>\<open>==\<close> is equality and whose \<^verbatim>\<open><\<close> is a linear order,
  \<open>a < b\<close> is the lexicographic order of the library on the two sequences,
  \<open>a > b\<close> is \<open>b < a\<close> and \<open>a >= b\<close> is \<open>b <= a\<close>.
\<close>

lemma std_lexicographical_compare_lexord:
  "std_lexicographical_compare (<) xs (ys :: 'a :: linorder list) =
     ((xs, ys) \<in> lexord {(x, y). x < y})"
  by (induction "(<) :: 'a \<Rightarrow> 'a \<Rightarrow> bool" xs ys rule: std_lexicographical_compare.induct) auto

lemma std_equal_eq: "std_equal (=) xs ys = (xs = ys)"
  by (induction "(=) :: 'a \<Rightarrow> 'a \<Rightarrow> bool" xs ys rule: std_equal.induct) auto

lemma lexord_less_trichotomy:
  fixes xs ys :: "'a :: linorder list"
  shows "((ys, xs) \<in> lexord {(x, y). x < y}) =
         ((xs, ys) \<notin> lexord {(x, y). x < y} \<and> xs \<noteq> ys)"
proof -
  let ?R = "{(x, y :: 'a). x < y}"
  have lin: "(xs, ys) \<in> lexord ?R \<or> xs = ys \<or> (ys, xs) \<in> lexord ?R"
    by (rule lexord_linear) auto
  have as: "asym ?R" by (rule asymI) auto
  have a1: "(ys, xs) \<in> lexord ?R \<Longrightarrow> (xs, ys) \<notin> lexord ?R"
    by (rule lexord_asymmetric [OF as])
  have irr: "(ys, ys) \<notin> lexord ?R" by (rule lexord_irreflexive) simp
  show ?thesis using lin a1 irr by auto
qed

lemma comparison_operators_linorder:
  fixes a b :: "('a :: linorder) SimpleVector"
  assumes "elements a = Inr xs" "elements b = Inr ys"
  shows "op_eq (=) a b = Inr (xs = ys)"
    and "op_ne (=) a b = Inr (xs \<noteq> ys)"
    and "op_lt (<) a b = Inr ((xs, ys) \<in> lexord {(x, y). x < y})"
    and "op_gt (=) (<) a b = op_lt (<) b a"
    and "op_le (=) (<) a b = Inr ((xs, ys) \<in> lexord {(x, y). x < y} \<or> xs = ys)"
    and "op_ge (<) a b = op_le (=) (<) b a"
proof -
  have la: "length xs = size_f a" and lb: "length ys = size_f b"
    using assms by (auto simp: elements_Inr)
  have d: "xs \<noteq> ys" if "size_f a \<noteq> size_f b" using that la lb by auto
  show eq: "op_eq (=) a b = Inr (xs = ys)"
    using d by (simp add: op_eq_def GetSize_def assms std_equal_eq)
  show ne: "op_ne (=) a b = Inr (xs \<noteq> ys)" by (simp add: op_ne_def eq)
  show lt: "op_lt (<) a b = Inr ((xs, ys) \<in> lexord {(x, y). x < y})"
    by (simp add: op_lt_def assms std_lexicographical_compare_lexord)
  have lt': "op_lt (<) b a = Inr ((ys, xs) \<in> lexord {(x, y). x < y})"
    by (simp add: op_lt_def assms std_lexicographical_compare_lexord)
  show gt: "op_gt (=) (<) a b = op_lt (<) b a"
    using lexord_less_trichotomy [of ys xs] by (auto simp: op_gt_def lt lt' ne)
  have d': "ys \<noteq> xs" if "size_f b \<noteq> size_f a" using that la lb by auto
  have eq': "op_eq (=) b a = Inr (ys = xs)"
    using d' by (simp add: op_eq_def GetSize_def assms std_equal_eq)
  have gt': "op_gt (=) (<) b a = op_lt (<) a b"
    using lexord_less_trichotomy [of xs ys] by (auto simp: op_gt_def lt lt' op_ne_def eq')
  show le: "op_le (=) (<) a b = Inr ((xs, ys) \<in> lexord {(x, y). x < y} \<or> xs = ys)"
    using lexord_less_trichotomy [of ys xs] by (auto simp: op_le_def gt lt')
  show "op_ge (<) a b = op_le (=) (<) b a"
    by (simp add: op_ge_def op_le_def gt' lt)
qed

section \<open>The copy constructor\<close>

text \<open>
  The copy constructor reads the live elements of its source, allocates one slot
  for each of them and copies them in order (lemma \<open>SimpleVector_copy_eq\<close>); the
  capacity field, however, is taken from the source's capacity.

  Claim C1 says that the capacity of the copy equals the source's logical size.
  On the source \<^verbatim>\<open>{5}\<close> after \<^verbatim>\<open>Reserve(2)\<close> (size 1, capacity 2) the copy has a
  buffer of one slot and the capacity field 2, and the next \<^verbatim>\<open>PushBack\<close> on the
  copy writes behind its buffer.
\<close>

theorem copy_keeps_source_capacity:
  "Reserve int_type (SimpleVector_init int_type [5]) 2 =
     Inr \<lparr>items = [5, - 1], size_f = 1, capacity_f = 2\<rparr> \<and>
   SimpleVector_copy int_type \<lparr>items = [5, - 1], size_f = 1, capacity_f = 2\<rparr> =
     Inr \<lparr>items = [5], size_f = 1, capacity_f = 2\<rparr> \<and>
   PushBack_move int_type \<lparr>items = [5], size_f = 1, capacity_f = 2\<rparr> (Outside 6) =
     Inl UndefinedBehaviour"
  by (simp add: SimpleVector_init_eq Reserve_grow SimpleVector_copy_eq PushBack_move_def
      slot_swap_def int_type_def)

section \<open>The invariant\<close>

text \<open>
  Every operation keeps the invariant when it is called within its precondition
  (\<^verbatim>\<open>PushBack\<close> and \<^verbatim>\<open>Insert\<close> with an argument outside the vector); \<^verbatim>\<open>PopBack\<close> on
  an empty vector wraps the size around.
\<close>

lemma Clear_eq: "Clear T v = Inr (v\<lparr>size_f := 0\<rparr>)"
  by (simp add: Clear_def Resize_def)

lemma PopBack_nonempty: "0 < size_f v \<Longrightarrow> PopBack v = v\<lparr>size_f := size_f v - 1\<rparr>"
  by (simp add: PopBack_def)

lemma PopBack_empty_wraps:
  "size_f (PopBack (SimpleVector_default :: 'a SimpleVector)) = 2 ^ 64 - 1"
  by (simp add: PopBack_def SimpleVector_default_def SIZE_MAX_def)

lemma invariant_preserved:
  assumes "invariant v"
  shows "\<exists>v'. Reserve T v n = Inr v' \<and> invariant v'"
    and "\<exists>v'. Resize T v n = Inr v' \<and> invariant v'"
    and "\<exists>v'. Clear T v = Inr v' \<and> invariant v'"
    and "\<exists>v'. PushBack_move T v (Outside x) = Inr v' \<and> invariant v'"
    and "begin_it v \<le> pos \<and> pos \<le> end_it v \<Longrightarrow>
         \<exists>v' it. Insert T v pos (Outside x) = Inr (v', it) \<and> invariant v'"
    and "begin_it v \<le> pos \<and> pos \<le> end_it v \<Longrightarrow>
         \<exists>v' it. Insert_move T v pos (Outside x) = Inr (v', it) \<and> invariant v'"
    and "begin_it v \<le> pos \<and> pos < end_it v \<Longrightarrow>
         \<exists>v' it. Erase T v pos = Inr (v', it) \<and> invariant v'"
    and "0 < size_f v \<Longrightarrow> invariant (PopBack v)"
    and "invariant w \<Longrightarrow> invariant (fst (swap v w)) \<and> invariant (snd (swap v w))"
proof -
  have sz: "size_f v \<le> capacity_f v" and ln: "capacity_f v = length (items v)"
    using assms by (simp_all add: invariant_def)
  show "\<exists>v'. Reserve T v n = Inr v' \<and> invariant v'"
  proof (cases "capacity_f v < n")
    case True
    then show ?thesis
      using Reserve_grow [of v n T] sz ln by (simp add: invariant_def)
  next
    case False
    then show ?thesis using assms by (simp add: Reserve_def)
  qed
  show "\<exists>v'. Resize T v n = Inr v' \<and> invariant v'"
  proof -
    consider (a) "n \<le> size_f v" | (b) "size_f v < n" "n \<le> capacity_f v" | (c) "capacity_f v < n"
      by linarith
    then show ?thesis
    proof cases
      case a
      then show ?thesis using Resize_shrink [of n v T] sz ln by (simp add: invariant_def)
    next
      case b
      then show ?thesis using Resize_in_place [of v n T] sz ln by (simp add: invariant_def)
    next
      case c
      then show ?thesis using Resize_grow [of v n T] sz ln by (auto simp: invariant_def)
    qed
  qed
  show "\<exists>v'. Clear T v = Inr v' \<and> invariant v'"
    using ln by (simp add: Clear_eq invariant_def)
  show "\<exists>v'. PushBack_move T v (Outside x) = Inr v' \<and> invariant v'"
    using PushBack_ok [OF assms, of T x] by blast
  show "\<exists>v' it. Insert T v pos (Outside x) = Inr (v', it) \<and> invariant v'"
    if "begin_it v \<le> pos \<and> pos \<le> end_it v"
    using Insert_both [OF assms, of pos T x] that by blast
  show "\<exists>v' it. Insert_move T v pos (Outside x) = Inr (v', it) \<and> invariant v'"
    if "begin_it v \<le> pos \<and> pos \<le> end_it v"
    using Insert_both [OF assms, of pos T x] that by blast
  show "\<exists>v' it. Erase T v pos = Inr (v', it) \<and> invariant v'"
    if "begin_it v \<le> pos \<and> pos < end_it v"
    using Erase_ok [OF assms, of pos T] that by blast
  show "invariant (PopBack v)" if "0 < size_f v"
    using that sz ln by (simp add: PopBack_nonempty invariant_def)
  show "invariant (fst (swap v w)) \<and> invariant (snd (swap v w))" if "invariant w"
    using that assms by (simp add: swap_def invariant_def)
qed

text \<open>
  Claim C2 says that every vector that a constructor produces or that is reachable
  through public operations satisfies \<open>size \<le> capacity\<close> with the capacity field
  equal to the allocated length of the buffer. The default, sized, filled,
  initializer-list and move constructors establish it (lemma
  \<open>invariant_constructors\<close>) and the operations keep it (lemma
  \<open>invariant_preserved\<close>). Two constructors break it: the one from \<^verbatim>\<open>Reserve(3)\<close> sets
  the capacity field to 3 and allocates nothing, so that the next \<^verbatim>\<open>PushBack\<close> writes
  through the null buffer; the copy constructor breaks it on every source with
  spare capacity.
\<close>

theorem reserved_has_no_buffer:
  "SimpleVector_reserved (Reserve_proxy 3) =
     (\<lparr>items = [], size_f = 0, capacity_f = 3\<rparr> :: int SimpleVector) \<and>
   \<not> invariant (SimpleVector_reserved (Reserve_proxy 3) :: int SimpleVector) \<and>
   PushBack_move int_type (SimpleVector_reserved (Reserve_proxy 3)) (Outside 7) =
     Inl UndefinedBehaviour \<and>
   (\<exists>c. SimpleVector_copy int_type \<lparr>items = [5, - 1], size_f = 1, capacity_f = 2\<rparr> = Inr c \<and>
        \<not> invariant c)"
  by (simp add: SimpleVector_reserved_def Reserve_proxy_def ReserveProxyObj_GetCapacity_def
      invariant_def PushBack_move_def slot_swap_def SimpleVector_copy_eq)

section \<open>Operations on the vectors of the two constructors, and arguments inside the vector\<close>

lemma std_copy_backward_4:
  "std_copy_backward rd [a, b, c, d] 0 3 4 = [rd a, a, b, c]"
  by (simp add: std_copy_backward.simps [of _ _ _ "Suc n" for n]
      std_copy_backward.simps [of _ _ _ 0] numeral_eq_Suc)

text \<open>
  Claim C8 says what \<^verbatim>\<open>Resize(newSize)\<close> does in each of its three cases, for every
  vector. On a vector that satisfies the invariant the code does it (lemma
  \<open>Resize_cases\<close>). On the vector of \<^verbatim>\<open>SimpleVector<int> v(Reserve(3))\<close> the call
  \<^verbatim>\<open>v.Resize(2)\<close> is in the case \<open>size < newSize \<le> capacity\<close> and runs \<^verbatim>\<open>std::generate\<close> over
  two slots of a buffer that was never allocated; on the copy of a vector with
  three elements and capacity 4 the call \<^verbatim>\<open>Resize(4)\<close> writes behind the three slots
  of the copy.
\<close>

theorem Resize_outside_buffer:
  "Resize int_type (SimpleVector_reserved (Reserve_proxy 3)) 2 = Inl UndefinedBehaviour \<and>
   Reserve int_type (SimpleVector_init int_type [1, 2, 3]) 4 =
     Inr \<lparr>items = [1, 2, 3, - 1], size_f = 3, capacity_f = 4\<rparr> \<and>
   SimpleVector_copy int_type \<lparr>items = [1, 2, 3, - 1], size_f = 3, capacity_f = 4\<rparr> =
     Inr \<lparr>items = [1, 2, 3], size_f = 3, capacity_f = 4\<rparr> \<and>
   Resize int_type \<lparr>items = [1, 2, 3], size_f = 3, capacity_f = 4\<rparr> 4 = Inl UndefinedBehaviour"
  by (simp add: SimpleVector_reserved_def Reserve_proxy_def ReserveProxyObj_GetCapacity_def
      Resize_def SimpleVector_init_eq Reserve_grow SimpleVector_copy_eq int_type_def)

text \<open>
  Claim C4 says what \<^verbatim>\<open>PushBack\<close> does, for both overloads and every vector. With an
  argument outside the vector and on a vector that satisfies the invariant the
  move overload does it (lemma \<open>PushBack_move_appends\<close>). The copy overload cannot
  be instantiated, so \<^verbatim>\<open>int x = 3; v.PushBack(x);\<close> does not compile. On the vector of
  \<^verbatim>\<open>SimpleVector<int> v(Reserve(3))\<close> the call \<^verbatim>\<open>v.PushBack(7)\<close> is in the case
  \<open>size < capacity\<close> and writes through the null buffer. On a full vector,
  \<^verbatim>\<open>v.PushBack(std::move(v[0]))\<close> exchanges the new slot with an element of the buffer
  that \<^verbatim>\<open>Reserve\<close> has just released.
\<close>

theorem PushBack_failures:
  "PushBack int_type (SimpleVector_init int_type [1, 2]) (Outside 3) = Inl IllFormed \<and>
   PushBack_move int_type (SimpleVector_reserved (Reserve_proxy 3)) (Outside 7) =
     Inl UndefinedBehaviour \<and>
   PushBack_move int_type (SimpleVector_init int_type [1, 2]) (Slot 0) = Inl UndefinedBehaviour"
  by (simp add: PushBack_def PushBack_move_def slot_swap_def after_Reserve_def
      SimpleVector_reserved_def Reserve_proxy_def ReserveProxyObj_GetCapacity_def
      SimpleVector_init_eq Reserve_grow int_type_def)

text \<open>
  When the vector has room, \<^verbatim>\<open>v.PushBack(std::move(v[0]))\<close> stores the element in the
  new slot and leaves the former content of that slot in \<^verbatim>\<open>v[0]\<close>.
\<close>

lemma PushBack_move_own_element:
  "PushBack_move int_type \<lparr>items = [1, 2, 3, - 1], size_f = 3, capacity_f = 4\<rparr> (Slot 0) =
     Inr \<lparr>items = [- 1, 2, 3, 1], size_f = 4, capacity_f = 4\<rparr>"
  by (simp add: PushBack_move_def slot_swap_def)

text \<open>
  Claim C5 says that \<^verbatim>\<open>Insert(pos, value)\<close> places the value at the freed slot, for
  every vector and value. With an argument outside the vector and on a vector that
  satisfies the invariant both overloads do it (lemma \<open>Insert_shifts\<close>). The source
  reads the reference \<open>value\<close> after the growth step and after the shift: on
  \<^verbatim>\<open>v{1, 2, 3}\<close> after \<^verbatim>\<open>v.Reserve(4)\<close> the call \<^verbatim>\<open>v.Insert(v.begin(), v[1])\<close> inserts 1
  where the caller passed the element 2, and on the full vector \<^verbatim>\<open>v{1, 2, 3}\<close> the
  same call reads the buffer that \<^verbatim>\<open>Reserve\<close> has released. On the vector of
  \<^verbatim>\<open>SimpleVector<int> v(Reserve(3))\<close> the call \<^verbatim>\<open>v.Insert(v.begin(), 7)\<close> does not grow and
  writes through the null buffer.
\<close>

theorem Insert_failures:
  "Reserve int_type (SimpleVector_init int_type [1, 2, 3]) 4 =
     Inr \<lparr>items = [1, 2, 3, - 1], size_f = 3, capacity_f = 4\<rparr> \<and>
   Insert int_type \<lparr>items = [1, 2, 3, - 1], size_f = 3, capacity_f = 4\<rparr> 0 (Slot 1) =
     Inr (\<lparr>items = [1, 1, 2, 3], size_f = 4, capacity_f = 4\<rparr>, 0) \<and>
   Insert int_type \<lparr>items = [1, 2, 3, - 1], size_f = 3, capacity_f = 4\<rparr> 0 (Outside 2) =
     Inr (\<lparr>items = [2, 1, 2, 3], size_f = 4, capacity_f = 4\<rparr>, 0) \<and>
   Insert int_type (SimpleVector_init int_type [1, 2, 3]) 0 (Slot 1) = Inl UndefinedBehaviour \<and>
   Insert_move int_type (SimpleVector_init int_type [1, 2, 3]) 0 (Slot 1) =
     Inl UndefinedBehaviour \<and>
   Insert int_type (SimpleVector_reserved (Reserve_proxy 3)) 0 (Outside 7) =
     Inl UndefinedBehaviour \<and>
   Insert_move int_type (SimpleVector_reserved (Reserve_proxy 3)) 0 (Outside 7) =
     Inl UndefinedBehaviour"
  by (simp add: Insert_def Insert_move_def Insert_grow_def slot_assign_def slot_swap_def
      after_Reserve_def begin_it_def end_it_def std_copy_backward_4
      length_std_copy_backward
      SimpleVector_reserved_def Reserve_proxy_def ReserveProxyObj_GetCapacity_def
      SimpleVector_init_eq Reserve_grow int_type_def)

end
